theory Spec2Isabelle
  imports Complex_Main "HOL-Library.Sublist"
begin

section \<open>Documents\<close>

text \<open>
  A retrieved chunk is a langchain \<open>Document\<close>: a text and a metadata dictionary.
  The dictionary is modelled by the keys that the retrieval engine and the context-window
  refiner read or write, each of them optional (\<open>None\<close>: the key is absent), and
  by an association list for every other key (source, page number, file path).
  Scores are Python floats; only literals, comparisons, maxima and quotients of small
  integers are taken, so they are modelled as reals.
\<close>

record meta =
  md_relevance_score :: "real option"
  md_department :: "string option"
  md_error :: "bool option"
  md_window_type :: "string option"
  md_window_start :: "nat option"
  md_window_end :: "nat option"
  md_central_sentence :: "nat option"
  md_sentence_relevance :: "real option"
  md_other :: "(string \<times> string) list"

record document =
  page_content :: string
  metadata :: meta

definition empty_meta :: meta where
  "empty_meta = \<lparr> md_relevance_score = None, md_department = None, md_error = None,
     md_window_type = None, md_window_start = None, md_window_end = None,
     md_central_sentence = None, md_sentence_relevance = None, md_other = [] \<rparr>"

text \<open>\<open>doc.metadata.get('relevance_score', dflt)\<close>\<close>

definition score_or :: "real \<Rightarrow> document \<Rightarrow> real" where
  "score_or dflt doc = (case md_relevance_score (metadata doc) of None \<Rightarrow> dflt | Some v \<Rightarrow> v)"

text \<open>\<open>doc.metadata['relevance_score'] = v\<close>\<close>

definition set_score :: "real \<Rightarrow> document \<Rightarrow> document" where
  "set_score v doc = doc\<lparr>metadata := (metadata doc)\<lparr>md_relevance_score := Some v\<rparr>\<rparr>"

text \<open>\<open>if 'relevance_score' not in doc.metadata: doc.metadata['relevance_score'] = v\<close>\<close>

definition fill_score :: "real \<Rightarrow> document \<Rightarrow> document" where
  "fill_score v doc = (if md_relevance_score (metadata doc) = None then set_score v doc else doc)"

text \<open>\<open>doc.metadata['department'] = department\<close>\<close>

definition set_department :: "string \<Rightarrow> document \<Rightarrow> document" where
  "set_department dept doc = doc\<lparr>metadata := (metadata doc)\<lparr>md_department := Some dept\<rparr>\<rparr>"

section \<open>Relevance summary\<close>

text \<open>Python's \<open>max\<close> over a non-empty list, the first element given apart.\<close>

definition py_max :: "real \<Rightarrow> real list \<Rightarrow> real" where
  "py_max x xs = fold max xs x"

text \<open>
  \<open>evaluate_context_relevance(query, docs, threshold)\<close>. The documents are mutated (a
  missing score is filled with 0.7), so the updated list is returned beside the tuple.
\<close>

definition evaluate_context_relevance ::
  "string \<Rightarrow> document list \<Rightarrow> real \<Rightarrow> (real \<times> bool) \<times> document list" where
  "evaluate_context_relevance query docs threshold =
     (case docs of
        [] \<Rightarrow> ((0, False), [])
      | d # ds \<Rightarrow>
          (let docs' = map (fill_score 0.7) docs;
               max_similarity = py_max (score_or 0.7 (hd docs')) (map (score_or 0.7) (tl docs'));
               has_relevant_context = True
           in ((max_similarity, has_relevant_context), docs')))"

section \<open>Context-window refiner\<close>

subsection \<open>String primitives\<close>

text \<open>
  A character is a code point below 256 (the type \<open>char\<close> has no other), a string a list
  of them. \<open>is_space\<close> is the whitespace of Python on that range, the class \<open>\s\<close> of
  \<open>re\<close> on text and the separators of \<open>str.split()\<close>: the ASCII whitespace with the
  four separators U+001C to U+001F, the next-line character U+0085 and the no-break space
  U+00A0. \<open>lower_char\<close> is \<open>str.lower()\<close> on that range: it moves the letters A to Z and
  the letters U+00C0 to U+00DE, the multiplication sign U+00D7 apart, 32 places up.
\<close>

definition is_space :: "char \<Rightarrow> bool" where
  "is_space c = (c \<in> set [CHR '' '', CHR 0x09, CHR 0x0A, CHR 0x0B, CHR 0x0C, CHR 0x0D,
                           CHR 0x1C, CHR 0x1D, CHR 0x1E, CHR 0x1F, CHR 0x85, CHR 0xA0])"

definition is_terminator :: "char \<Rightarrow> bool" where
  "is_terminator c = (c \<in> set [CHR ''.'', CHR ''!'', CHR ''?''])"

definition lower_char :: "char \<Rightarrow> char" where
  "lower_char c =
     (let n = (of_char c :: nat)
      in if (65 \<le> n \<and> n \<le> 90) \<or> (192 \<le> n \<and> n \<le> 222 \<and> n \<noteq> 215)
         then char_of (n + 32) else c)"

definition py_lower :: "string \<Rightarrow> string" where
  "py_lower s = map lower_char s"

text \<open>
  \<open>str.split()\<close>: the maximal runs of non-whitespace characters. The first argument is the
  current word, reversed.
\<close>

fun words_from :: "string \<Rightarrow> string \<Rightarrow> string list" where
  "words_from acc [] = (if acc = [] then [] else [rev acc])"
| "words_from acc (c # cs) =
     (if is_space c then (if acc = [] then words_from [] cs else rev acc # words_from [] cs)
      else words_from (c # acc) cs)"

definition py_split :: "string \<Rightarrow> string list" where
  "py_split s = words_from [] s"

text \<open>
  \<open>re.split(r'(?<=[.!?])\s+', content)\<close>: the text is cut at every maximal run of whitespace
  that directly follows one of \<open>.\<close>, \<open>!\<close>, \<open>?\<close>; the run itself is dropped. The first
  argument is the current piece, reversed; its head is the character before the position
  scanned. The result is never empty: the empty text gives one empty piece.
\<close>

function split_from :: "string \<Rightarrow> string \<Rightarrow> string list" where
  "split_from acc [] = [rev acc]"
| "split_from acc (c # cs) =
     (if is_space c \<and> acc \<noteq> [] \<and> is_terminator (hd acc)
      then rev acc # split_from [] (dropWhile is_space cs)
      else split_from (c # acc) cs)"
  by pat_completeness auto
termination
  by (relation "measure (\<lambda>(acc, s). length s)")
     (auto simp: less_Suc_eq_le length_dropWhile_le)

definition split_sentences :: "string \<Rightarrow> string list" where
  "split_sentences content = split_from [] content"

text \<open>\<open>" ".join(pieces)\<close>\<close>

fun join_space :: "string list \<Rightarrow> string" where
  "join_space [] = []"
| "join_space [x] = x"
| "join_space (x # y # ys) = x @ '' '' @ join_space (y # ys)"

text \<open>\<open>xs[i:j]\<close> for indices that are not negative.\<close>

definition slice :: "'a list \<Rightarrow> nat \<Rightarrow> nat \<Rightarrow> 'a list" where
  "slice xs i j = drop i (take j xs)"

text \<open>\<open>xs.index(v)\<close>; \<open>None\<close> where Python raises ValueError.\<close>

fun index_of :: "'a \<Rightarrow> 'a list \<Rightarrow> nat option" where
  "index_of v [] = None"
| "index_of v (x # xs) =
     (if x = v then Some 0 else (case index_of v xs of None \<Rightarrow> None | Some i \<Rightarrow> Some (Suc i)))"

subsection \<open>The refiner\<close>

definition query_terms :: "string \<Rightarrow> string set" where
  "query_terms query = set (py_split (py_lower query))"

text \<open>
  The score of one sentence:
  \<open>len(common_terms) / max(len(query_terms), 1) if query_terms else 0\<close>.
\<close>

definition sentence_score :: "string set \<Rightarrow> string \<Rightarrow> real" where
  "sentence_score qterms sentence =
     (let sentence_terms = set (py_split (py_lower sentence));
          common_terms = qterms \<inter> sentence_terms
      in if qterms = {} then 0
         else real (card common_terms) / real (max (card qterms) 1))"

text \<open>
  The body of the loop of \<open>enhanced_context_window\<close> for one document. The body runs under
  \<open>try\<close>; the only operations of it that can raise on a text are \<open>max\<close> of an empty list
  and \<open>index\<close> of an absent value, and the handler keeps the original document.
\<close>

definition window_doc :: "string \<Rightarrow> nat \<Rightarrow> document \<Rightarrow> document" where
  "window_doc query window_size doc =
     (if md_error (metadata doc) = Some True then doc
      else
        let sentences = split_sentences (page_content doc) in
        if sentences = [] \<or> length sentences \<le> window_size * 2 then doc
        else
          let qterms = query_terms query;
              scores = map (sentence_score qterms) sentences;
              best = py_max (hd scores) (tl scores)
          in
          if best < 0.1 \<and> length sentences > 10 then
            \<lparr> page_content = join_space (slice sentences 0 (min 10 (length sentences))),
              metadata = (metadata doc)\<lparr>md_window_type := Some ''prefix''\<rparr> \<rparr>
          else
            (case index_of best scores of
               None \<Rightarrow> doc
             | Some most_relevant_idx \<Rightarrow>
                 let start_idx = most_relevant_idx - window_size;
                     end_idx = min (length sentences) (most_relevant_idx + window_size + 1)
                 in \<lparr> page_content = join_space (slice sentences start_idx end_idx),
                      metadata = (metadata doc)
                        \<lparr> md_window_start := Some start_idx,
                          md_window_end := Some end_idx,
                          md_central_sentence := Some most_relevant_idx,
                          md_sentence_relevance := Some (scores ! most_relevant_idx),
                          md_window_type := Some ''context'' \<rparr> \<rparr>))"

definition enhanced_context_window :: "document list \<Rightarrow> string \<Rightarrow> nat \<Rightarrow> document list" where
  "enhanced_context_window docs query window_size =
     (if docs = [] then [] else map (window_doc query window_size) docs)"

section \<open>The similarity index\<close>

text \<open>
  Every \<open>raise\<close> of the source is a value \<open>Inl e\<close>; a \<open>try\<close> is a case analysis on it.
\<close>

datatype error = AttributeError | ValueError | TypeError | OSError | RuntimeError

text \<open>
  The FAISS store of langchain is an external library. Its object holds a document store
  (an insertion-ordered dictionary from ids to documents, modelled by the list of its values:
  the id of a document is its position) and the native index. What the native index answers
  is a parameter of the model: for a query and a budget it gives the positions of the hits,
  best first, or raises. \<open>index_truthy\<close> is the truth value of the \<open>index\<close> attribute;
  the attribute may be missing (\<open>hasattr\<close> is false), and so may the document store, whose
  dictionary may also fail to be read.
\<close>

record faiss_index =
  index_truthy :: bool
  mmr_positions :: "string \<Rightarrow> nat \<Rightarrow> nat \<Rightarrow> error + nat list"
  similarity_positions :: "string \<Rightarrow> nat \<Rightarrow> error + nat list"

datatype docstore = DocstoreAbsent | DocstoreBroken | Docstore "document list"

record faiss =
  docstore :: docstore
  index :: "faiss_index option"

text \<open>
  The library maps every position found to its document and raises when one is not in the
  document store.
\<close>

definition resolve :: "docstore \<Rightarrow> nat list \<Rightarrow> error + nat list" where
  "resolve store ps =
     (if ps = [] then Inr []
      else (case store of
              Docstore ds \<Rightarrow> if \<forall>p \<in> set ps. p < length ds then Inr ps else Inl ValueError
            | _ \<Rightarrow> Inl AttributeError))"

definition max_marginal_relevance_search ::
  "faiss \<Rightarrow> string \<Rightarrow> nat \<Rightarrow> nat \<Rightarrow> error + nat list" where
  "max_marginal_relevance_search vs query k fetch_k =
     (case index vs of
        None \<Rightarrow> Inl AttributeError
      | Some ix \<Rightarrow>
          (case mmr_positions ix query k fetch_k of
             Inl e \<Rightarrow> Inl e
           | Inr ps \<Rightarrow> resolve (docstore vs) ps))"

definition faiss_similarity_search :: "faiss \<Rightarrow> string \<Rightarrow> nat \<Rightarrow> error + nat list" where
  "faiss_similarity_search vs query k =
     (case index vs of
        None \<Rightarrow> Inl AttributeError
      | Some ix \<Rightarrow>
          (case similarity_positions ix query k of
             Inl e \<Rightarrow> Inl e
           | Inr ps \<Rightarrow> resolve (docstore vs) ps))"

section \<open>Retrieval engine\<close>

text \<open>
  \<open>similarity_search\<close> and \<open>search_department\<close> have the same body; the second also
  writes the department into every document it returns. The shared body takes the
  department as an option. The documents returned are the objects of the document store,
  so writing a score into one changes the store: every function returns the store beside
  the result.
\<close>

definition annotate :: "string option \<Rightarrow> real \<Rightarrow> document \<Rightarrow> document" where
  "annotate dept v doc =
     (case dept of None \<Rightarrow> set_score v doc | Some d \<Rightarrow> set_department d (set_score v doc))"

definition annotate_missing :: "string option \<Rightarrow> document \<Rightarrow> document" where
  "annotate_missing dept doc =
     (case dept of None \<Rightarrow> fill_score 0.85 doc
      | Some d \<Rightarrow> set_department d (fill_score 0.85 doc))"

text \<open>
  \<open>count = min(k, len(docstore_keys))\<close>, then the first \<open>count\<close> documents of the store,
  each given the score \<open>v\<close>.
\<close>

definition direct_retrieval ::
  "string option \<Rightarrow> real \<Rightarrow> nat \<Rightarrow> document list \<Rightarrow> document list \<times> document list" where
  "direct_retrieval dept v k ds =
     (let count = min k (length ds);
          result_docs = map (annotate dept v) (take count ds)
      in (result_docs, result_docs @ drop count ds))"

text \<open>
  The fallback blocks: \<open>if hasattr(vs, 'docstore') and vs.docstore: ... if docstore_keys: ...
  return result_docs\<close>. \<open>None\<close>: the block returns nothing (also when reading the store
  raises, which the block logs) and control goes on.
\<close>

definition docstore_fallback ::
  "string option \<Rightarrow> real \<Rightarrow> nat \<Rightarrow> faiss \<Rightarrow> (document list \<times> faiss) option" where
  "docstore_fallback dept v k vs =
     (case docstore vs of
        Docstore ds \<Rightarrow>
          if ds \<noteq> [] then
            (let (result_docs, ds') = direct_retrieval dept v k ds
             in Some (result_docs, vs\<lparr>docstore := Docstore ds'\<rparr>))
          else None
      | _ \<Rightarrow> None)"

text \<open>The search proper: MMR first, plain similarity search when MMR raises or finds nothing.\<close>

definition search_primary :: "bool \<Rightarrow> faiss \<Rightarrow> string \<Rightarrow> nat \<Rightarrow> error + nat list" where
  "search_primary mmr vs query k =
     (if mmr then
        (case max_marginal_relevance_search vs query k (k * 3) of
           Inr ps \<Rightarrow>
             if ps = [] \<and> (case index vs of None \<Rightarrow> False | Some ix \<Rightarrow> index_truthy ix)
             then (case faiss_similarity_search vs query k of
                     Inr ps' \<Rightarrow> Inr ps'
                   | Inl e \<Rightarrow> faiss_similarity_search vs query k)
             else Inr ps
         | Inl e \<Rightarrow> faiss_similarity_search vs query k)
      else faiss_similarity_search vs query k)"

text \<open>\<open>for doc in docs: ...\<close> on the documents at the positions found.\<close>

definition update_positions ::
  "(document \<Rightarrow> document) \<Rightarrow> nat list \<Rightarrow> document list \<Rightarrow> document list" where
  "update_positions f ps ds = fold (\<lambda>p ds'. ds'[p := f (ds' ! p)]) ps ds"

definition annotate_found :: "string option \<Rightarrow> nat list \<Rightarrow> faiss \<Rightarrow> document list \<times> faiss" where
  "annotate_found dept ps vs =
     (case docstore vs of
        Docstore ds \<Rightarrow>
          (let ds' = update_positions (annotate_missing dept) ps ds
           in (map (\<lambda>p. ds' ! p) ps, vs\<lparr>docstore := Docstore ds'\<rparr>))
      | _ \<Rightarrow> ([], vs))"

text \<open>The outer \<open>try\<close> block.\<close>

definition search_body ::
  "bool \<Rightarrow> string option \<Rightarrow> faiss \<Rightarrow> string \<Rightarrow> nat \<Rightarrow> error + document list \<times> faiss" where
  "search_body mmr dept vs query k =
     (case (if index vs = None then docstore_fallback dept 0.8 k vs else None) of
        Some r \<Rightarrow> Inr r
      | None \<Rightarrow>
          (case search_primary mmr vs query k of
             Inl e \<Rightarrow> Inl e
           | Inr ps \<Rightarrow>
               (let (docs, vs') = annotate_found dept ps vs
                in if docs = [] then
                     (case docstore_fallback dept 0.7 k vs' of
                        Some r \<Rightarrow> Inr r
                      | None \<Rightarrow> Inr (docs, vs'))
                   else Inr (docs, vs'))))"

text \<open>The outer \<open>except\<close> block: the emergency fallback, and the empty list at the end.\<close>

definition search_store ::
  "bool \<Rightarrow> string option \<Rightarrow> faiss \<Rightarrow> string \<Rightarrow> nat \<Rightarrow> error + document list \<times> faiss" where
  "search_store mmr dept vs query k =
     (case search_body mmr dept vs query k of
        Inr r \<Rightarrow> Inr r
      | Inl e \<Rightarrow>
          (case docstore_fallback dept 0.6 k vs of
             Some r \<Rightarrow> Inr r
           | None \<Rightarrow> Inr ([], vs)))"

section \<open>The vector store\<close>

text \<open>
  The calls into the FAISS library and the file system that build, load, extend or persist
  an index, in the order they are made.
\<close>

datatype call =
    MakeDirs string
  | LoadLocal string
  | FromTexts "string list"
  | FromDocuments "document list"
  | AddDocuments "document list"
  | SaveLocal string

text \<open>
  The state of a \<open>VectorStore\<close> object with the state it persists: the directories on disk
  and the index saved in each. \<open>department_vectorstores\<close> is a dictionary; the order of its
  keys is the order in which partitions are scanned, so it is an association list.
  \<open>embed_query\<close> is the embedding provider.
\<close>

record vector_store =
  faiss_index_path :: string
  top_k_retrieval :: nat
  use_mmr :: bool
  embed_query :: "string \<Rightarrow> error + real list"
  vectorstore :: "faiss option"
  department_vectorstores :: "(string \<times> faiss) list"
  dirs :: "string set"
  saved :: "string \<rightharpoonup> faiss"
  calls :: "call list"

text \<open>\<open>d[key] = value\<close>: an existing key keeps its place, a new one goes last.\<close>

fun dict_set :: "'k \<Rightarrow> 'v \<Rightarrow> ('k \<times> 'v) list \<Rightarrow> ('k \<times> 'v) list" where
  "dict_set key v [] = [(key, v)]"
| "dict_set key v ((key', v') # rest) =
     (if key' = key then (key, v) # rest else (key', v') # dict_set key v rest)"

text \<open>\<open>k = k or self.top_k_retrieval\<close>\<close>

definition effective_k :: "vector_store \<Rightarrow> nat option \<Rightarrow> nat" where
  "effective_k s k =
     (case k of None \<Rightarrow> top_k_retrieval s
      | Some n \<Rightarrow> if n = 0 then top_k_retrieval s else n)"

definition similarity_search ::
  "vector_store \<Rightarrow> string \<Rightarrow> nat option \<Rightarrow> error + document list \<times> vector_store" where
  "similarity_search s query k =
     (case vectorstore s of
        None \<Rightarrow> Inr ([], s)
      | Some vs \<Rightarrow>
          (case search_store (use_mmr s) None vs query (effective_k s k) of
             Inl e \<Rightarrow> Inl e
           | Inr (docs, vs') \<Rightarrow> Inr (docs, s\<lparr>vectorstore := Some vs'\<rparr>)))"

definition search_department ::
  "vector_store \<Rightarrow> string \<Rightarrow> string \<Rightarrow> nat option \<Rightarrow> error + document list \<times> vector_store" where
  "search_department s query department k =
     (case map_of (department_vectorstores s) department of
        None \<Rightarrow> Inr ([], s)
      | Some vs \<Rightarrow>
          (case search_store (use_mmr s) (Some department) vs query (effective_k s k) of
             Inl e \<Rightarrow> Inl e
           | Inr (docs, vs') \<Rightarrow>
               Inr (docs, s\<lparr>department_vectorstores :=
                               dict_set department vs' (department_vectorstores s)\<rparr>)))"

section \<open>Cross-partition fusion\<close>

text \<open>
  \<open>_cosine_similarity\<close> on real vectors; \<open>np.dot\<close> raises on vectors of different lengths,
  and the handler answers 0.7.
\<close>

definition cosine_similarity :: "real list \<Rightarrow> real list \<Rightarrow> real" where
  "cosine_similarity vec1 vec2 =
     (if length vec1 \<noteq> length vec2 then 0.7
      else
        let dot_product = sum_list (map2 (*) vec1 vec2);
            norm_a = sqrt (sum_list (map (\<lambda>x. x * x) vec1));
            norm_b = sqrt (sum_list (map (\<lambda>x. x * x) vec2))
        in if norm_a = 0 \<or> norm_b = 0 then 0 else dot_product / (norm_a * norm_b))"

definition compute_relevance :: "vector_store \<Rightarrow> string \<Rightarrow> real list option \<Rightarrow> real" where
  "compute_relevance s text query_embedding =
     (case query_embedding of
        None \<Rightarrow> 0.7
      | Some qe \<Rightarrow>
          (case embed_query s text of
             Inl e \<Rightarrow> 0.7
           | Inr text_embedding \<Rightarrow> cosine_similarity qe text_embedding))"

text \<open>
  The loop over the partitions. A partition without an index is skipped; the results of the
  others are appended in the order scanned. Every document that \<open>search_department\<close>
  returns already carries the department written again here, so writing it changes nothing
  in the store.
\<close>

fun scan_departments ::
  "vector_store \<Rightarrow> string \<Rightarrow> nat \<Rightarrow> string list \<Rightarrow> document list \<times> vector_store" where
  "scan_departments s query k [] = ([], s)"
| "scan_departments s query k (department # rest) =
     (case map_of (department_vectorstores s) department of
        None \<Rightarrow> scan_departments s query k rest
      | Some vs \<Rightarrow>
          (case search_department s query department (Some k) of
             Inl e \<Rightarrow> scan_departments s query k rest
           | Inr (dept_results, s') \<Rightarrow>
               (let tagged = map (set_department department) dept_results;
                    (more, s'') = scan_departments s' query k rest
                in (tagged @ more, s''))))"

text \<open>The score given to a document that has none after the scan.\<close>

definition score_missing :: "vector_store \<Rightarrow> real list option \<Rightarrow> document \<Rightarrow> document" where
  "score_missing s query_embedding doc =
     (if md_relevance_score (metadata doc) = None then
        (if query_embedding \<noteq> None \<and> query_embedding \<noteq> Some [] then
           set_score (compute_relevance s (page_content doc) query_embedding) doc
         else set_score 0.7 doc)
      else doc)"

text \<open>
  \<open>sorted(all_results, key=..., reverse=True)\<close> is stable: documents of equal score keep
  their order. It is the stable insertion sort on the negated key.
\<close>

definition sort_by_relevance :: "document list \<Rightarrow> document list" where
  "sort_by_relevance docs = sort_key (\<lambda>x. - score_or 0 x) docs"

text \<open>
  \<open>if not departments: departments = list(self.department_vectorstores.keys())\<close>
\<close>

definition scanned_departments :: "vector_store \<Rightarrow> string list option \<Rightarrow> string list" where
  "scanned_departments s departments =
     (case departments of
        None \<Rightarrow> map fst (department_vectorstores s)
      | Some ds \<Rightarrow> if ds = [] then map fst (department_vectorstores s) else ds)"

definition search_across_departments ::
  "vector_store \<Rightarrow> string \<Rightarrow> string list option \<Rightarrow> nat option
     \<Rightarrow> error + document list \<times> vector_store" where
  "search_across_departments s query departments k =
     (if (departments = None \<or> departments = Some []) \<and> department_vectorstores s = []
      then similarity_search s query k
      else
        let departments' = scanned_departments s departments;
            k' = effective_k s k;
            query_embedding = (case embed_query s query of Inl e \<Rightarrow> None | Inr v \<Rightarrow> Some v);
            (all_results, s') = scan_departments s query k' departments';
            all_results' = map (score_missing s query_embedding) all_results
        in Inr (take k' (sort_by_relevance all_results'), s'))"

section \<open>Index manager\<close>

text \<open>
  What the outside world answers while an index is built or persisted: the native index
  built for a list of documents (which embeds them, and may raise), the index extended by
  more documents, and whether creating a directory or saving into one fails.
\<close>

record env =
  build_index :: "document list \<Rightarrow> error + faiss_index"
  extend_index :: "faiss_index \<Rightarrow> document list \<Rightarrow> error + faiss_index"
  makedirs_fails :: "string \<Rightarrow> bool"
  save_fails :: "string \<Rightarrow> bool"

text \<open>\<open>os.path.join(a, b)\<close> on POSIX paths.\<close>

definition path_join :: "string \<Rightarrow> string \<Rightarrow> string" where
  "path_join a b =
     (if b \<noteq> [] \<and> hd b = CHR ''/'' then b
      else if a = [] \<or> last a = CHR ''/'' then a @ b
      else a @ ''/'' @ b)"

text \<open>\<open>FAISS.from_documents\<close> and \<open>FAISS.from_texts\<close>, which gives every text empty metadata.\<close>

definition from_documents :: "env \<Rightarrow> document list \<Rightarrow> error + faiss" where
  "from_documents e docs =
     (case build_index e docs of
        Inl err \<Rightarrow> Inl err
      | Inr ix \<Rightarrow> Inr \<lparr> docstore = Docstore docs, index = Some ix \<rparr>)"

definition from_texts :: "env \<Rightarrow> string list \<Rightarrow> error + faiss" where
  "from_texts e texts =
     from_documents e (map (\<lambda>t. \<lparr> page_content = t, metadata = empty_meta \<rparr>) texts)"

text \<open>\<open>vs.add_documents(chunks)\<close>\<close>

definition faiss_add_documents :: "env \<Rightarrow> faiss \<Rightarrow> document list \<Rightarrow> error + faiss" where
  "faiss_add_documents e vs chunks =
     (case index vs of
        None \<Rightarrow> Inl AttributeError
      | Some ix \<Rightarrow>
          (case docstore vs of
             Docstore ds \<Rightarrow>
               (case extend_index e ix chunks of
                  Inl err \<Rightarrow> Inl err
                | Inr ix' \<Rightarrow> Inr \<lparr> docstore = Docstore (ds @ chunks), index = Some ix' \<rparr>)
           | _ \<Rightarrow> Inl AttributeError))"

definition record_call :: "call \<Rightarrow> vector_store \<Rightarrow> vector_store" where
  "record_call c s = s\<lparr>calls := calls s @ [c]\<rparr>"

text \<open>\<open>vs.save_local(path)\<close>; a state is returned also when the call raises.\<close>

definition save_local ::
  "env \<Rightarrow> string \<Rightarrow> faiss \<Rightarrow> vector_store \<Rightarrow> (error + unit) \<times> vector_store" where
  "save_local e path vs s =
     (let s1 = record_call (SaveLocal path) s
      in if save_fails e path then (Inl OSError, s1)
         else (Inr (), s1\<lparr>dirs := insert path (dirs s1), saved := (saved s1)(path \<mapsto> vs)\<rparr>))"

text \<open>\<open>os.makedirs(path, exist_ok=True)\<close>\<close>

definition makedirs :: "env \<Rightarrow> string \<Rightarrow> vector_store \<Rightarrow> (error + unit) \<times> vector_store" where
  "makedirs e path s =
     (let s1 = record_call (MakeDirs path) s
      in if makedirs_fails e path then (Inl OSError, s1)
         else (Inr (), s1\<lparr>dirs := insert path (dirs s1)\<rparr>))"

text \<open>\<open>not chunks\<close>: the list is \<open>None\<close> or empty.\<close>

definition no_chunks :: "document list option \<Rightarrow> bool" where
  "no_chunks chunks = (chunks = None \<or> chunks = Some [])"

subsection \<open>The global index\<close>

text \<open>
  The inner \<open>try\<close> of both initialisers: load the persisted index. \<open>None\<close>: nothing was
  loaded (no attempt, or the attempt raised and was logged).
\<close>

definition try_load :: "bool \<Rightarrow> string \<Rightarrow> vector_store \<Rightarrow> faiss option \<times> vector_store" where
  "try_load attempt path s =
     (if attempt then (saved s path, record_call (LoadLocal path) s) else (None, s))"

text \<open>
  The index built by \<open>initialize_vectorstore\<close>, with the library call that builds it:
  a placeholder when there are no chunks, the index of the chunks otherwise.
\<close>

definition build_vectorstore :: "env \<Rightarrow> document list option \<Rightarrow> call \<times> (error + faiss)" where
  "build_vectorstore e chunks =
     (if no_chunks chunks
      then (FromTexts [''empty placeholder''], from_texts e [''empty placeholder''])
      else (FromDocuments (the chunks), from_documents e (the chunks)))"

text \<open>The outer \<open>try\<close> block of \<open>initialize_vectorstore\<close>.\<close>

definition initialize_vectorstore_try ::
  "env \<Rightarrow> vector_store \<Rightarrow> document list option \<Rightarrow> bool \<Rightarrow> (error + bool) \<times> vector_store" where
  "initialize_vectorstore_try e s chunks rebuild =
     (case try_load (faiss_index_path s \<in> dirs s \<and> \<not> rebuild \<and> no_chunks chunks)
             (faiss_index_path s) s of
        (Some vs, s1) \<Rightarrow> (Inr True, s1\<lparr>vectorstore := Some vs\<rparr>)
      | (None, s1) \<Rightarrow>
          (case build_vectorstore e chunks of
             (c, Inl err) \<Rightarrow> (Inl err, record_call c s1)
           | (c, Inr vs) \<Rightarrow>
               (case makedirs e (faiss_index_path s1) ((record_call c s1)\<lparr>vectorstore := Some vs\<rparr>) of
                  (Inl err, s2) \<Rightarrow> (Inl err, s2)
                | (Inr u, s2) \<Rightarrow>
                    (case save_local e (faiss_index_path s2) vs s2 of
                       (Inl err, s3) \<Rightarrow> (Inl err, s3)
                     | (Inr u', s3) \<Rightarrow> (Inr True, s3)))))"

text \<open>\<open>initialize_vectorstore\<close>: the \<open>try\<close> block, and the fallback of its handler.\<close>

definition initialize_vectorstore ::
  "env \<Rightarrow> vector_store \<Rightarrow> document list option \<Rightarrow> bool \<Rightarrow> bool \<times> vector_store" where
  "initialize_vectorstore e s chunks rebuild =
     (case initialize_vectorstore_try e s chunks rebuild of
        (Inr ok, s') \<Rightarrow> (ok, s')
      | (Inl err, s') \<Rightarrow>
          (let s'' = record_call (FromTexts [''empty fallback placeholder'']) s'
           in case from_texts e [''empty fallback placeholder''] of
                Inr vs \<Rightarrow> (True, s''\<lparr>vectorstore := Some vs\<rparr>)
              | Inl err' \<Rightarrow> (False, s'')))"

subsection \<open>A partition index\<close>

definition placeholder_text :: "string \<Rightarrow> string" where
  "placeholder_text department = ''Empty placeholder for '' @ department @ '' department''"

definition fallback_text :: "string \<Rightarrow> string" where
  "fallback_text department =
     ''Empty fallback placeholder for '' @ department @ '' department''"

definition set_department_store :: "string \<Rightarrow> faiss \<Rightarrow> vector_store \<Rightarrow> vector_store" where
  "set_department_store department vs s =
     s\<lparr>department_vectorstores := dict_set department vs (department_vectorstores s)\<rparr>"

text \<open>
  The index built by \<open>initialize_department_vectorstore\<close>, with the library call that
  builds it: a placeholder when there are no chunks or none of the department, the index of
  the chunks of the department otherwise.
\<close>

definition build_department_vectorstore ::
  "env \<Rightarrow> string \<Rightarrow> document list option \<Rightarrow> call \<times> (error + faiss)" where
  "build_department_vectorstore e department chunks =
     (if no_chunks chunks
      then (FromTexts [placeholder_text department], from_texts e [placeholder_text department])
      else
        let dept_chunks =
              filter (\<lambda>chunk. md_department (metadata chunk) = Some department) (the chunks)
        in if dept_chunks = []
           then (FromTexts [placeholder_text department],
                 from_texts e [placeholder_text department])
           else (FromDocuments dept_chunks, from_documents e dept_chunks))"

text \<open>The outer \<open>try\<close> block of \<open>initialize_department_vectorstore\<close>.\<close>

definition initialize_department_vectorstore_try ::
  "env \<Rightarrow> vector_store \<Rightarrow> string \<Rightarrow> document list option \<Rightarrow> bool
     \<Rightarrow> (error + bool) \<times> vector_store" where
  "initialize_department_vectorstore_try e s department chunks rebuild =
     (let department_index_path = path_join (faiss_index_path s) department
      in case makedirs e department_index_path s of
           (Inl err, s1) \<Rightarrow> (Inl err, s1)
         | (Inr u, s1) \<Rightarrow>
             (case try_load (department_index_path \<in> dirs s1 \<and> \<not> rebuild \<and> no_chunks chunks)
                     department_index_path s1 of
                (Some vs, s2) \<Rightarrow> (Inr True, set_department_store department vs s2)
              | (None, s2) \<Rightarrow>
                  (case build_department_vectorstore e department chunks of
                     (c, Inl err) \<Rightarrow> (Inl err, record_call c s2)
                   | (c, Inr vs) \<Rightarrow>
                       (case save_local e department_index_path vs
                               (set_department_store department vs (record_call c s2)) of
                          (Inl err, s3) \<Rightarrow> (Inl err, s3)
                        | (Inr u', s3) \<Rightarrow> (Inr True, s3)))))"

definition initialize_department_vectorstore ::
  "env \<Rightarrow> vector_store \<Rightarrow> string \<Rightarrow> document list option \<Rightarrow> bool \<Rightarrow> bool \<times> vector_store" where
  "initialize_department_vectorstore e s department chunks rebuild =
     (case initialize_department_vectorstore_try e s department chunks rebuild of
        (Inr ok, s') \<Rightarrow> (ok, s')
      | (Inl err, s') \<Rightarrow>
          (let s'' = record_call (FromTexts [fallback_text department]) s'
           in case from_texts e [fallback_text department] of
                Inr vs \<Rightarrow> (True, set_department_store department vs s'')
              | Inl err' \<Rightarrow> (False, s'')))"

subsection \<open>Incremental insertion\<close>

definition add_documents ::
  "env \<Rightarrow> vector_store \<Rightarrow> document list option \<Rightarrow> bool \<times> vector_store" where
  "add_documents e s chunks =
     (if no_chunks chunks then (False, s)
      else
        (case vectorstore s of
           None \<Rightarrow> initialize_vectorstore e s chunks False
         | Some vs \<Rightarrow>
             (let s1 = record_call (AddDocuments (the chunks)) s
              in case faiss_add_documents e vs (the chunks) of
                   Inl err \<Rightarrow> (False, s1)
                 | Inr vs' \<Rightarrow>
                     (case save_local e (faiss_index_path s1) vs' (s1\<lparr>vectorstore := Some vs'\<rparr>) of
                        (Inl err, s2) \<Rightarrow> (False, s2)
                      | (Inr u, s2) \<Rightarrow> (True, s2)))))"

definition add_documents_to_department ::
  "env \<Rightarrow> vector_store \<Rightarrow> string \<Rightarrow> document list option \<Rightarrow> bool \<times> vector_store" where
  "add_documents_to_department e s department chunks =
     (if no_chunks chunks then (False, s)
      else
        (case map_of (department_vectorstores s) department of
           None \<Rightarrow> initialize_department_vectorstore e s department chunks False
         | Some vs \<Rightarrow>
             (let dept_chunks =
                    filter (\<lambda>chunk. md_department (metadata chunk) = Some department) (the chunks)
              in if dept_chunks = [] then (True, s)
                 else
                   (let s1 = record_call (AddDocuments dept_chunks) s
                    in case faiss_add_documents e vs dept_chunks of
                         Inl err \<Rightarrow> (False, s1)
                       | Inr vs' \<Rightarrow>
                           (case save_local e (path_join (faiss_index_path s1) department) vs'
                                   (set_department_store department vs' s1) of
                              (Inl err, s2) \<Rightarrow> (False, s2)
                            | (Inr u, s2) \<Rightarrow> (True, s2))))))"

section \<open>Notions used to state the properties\<close>

text \<open>The list \<open>scores\<close> that the refiner computes for a document.\<close>

definition sentence_scores :: "string \<Rightarrow> document \<Rightarrow> real list" where
  "sentence_scores query doc =
     map (sentence_score (query_terms query)) (split_sentences (page_content doc))"

text \<open>A query overlaps a sentence when they have a term in common.\<close>

definition overlaps :: "string \<Rightarrow> string \<Rightarrow> bool" where
  "overlaps query sentence = (query_terms query \<inter> set (py_split (py_lower sentence)) \<noteq> {})"

text \<open>The documents of an outcome; none when the call raised.\<close>

definition result_docs :: "error + document list \<times> 's \<Rightarrow> document list" where
  "result_docs r = (case r of Inl e \<Rightarrow> [] | Inr (docs, s) \<Rightarrow> docs)"

text \<open>
  The scores that the retrieval engine writes by itself, one for each tier: the search
  proper, the direct enumeration when the index is missing, the enumeration after an empty
  search, and the emergency enumeration.
\<close>

definition tier_defaults :: "real set" where
  "tier_defaults = {0.85, 0.8, 0.7, 0.6}"

text \<open>A document carries a score, and the score lies in the set.\<close>

definition score_within :: "real set \<Rightarrow> document \<Rightarrow> bool" where
  "score_within S doc =
     (case md_relevance_score (metadata doc) of None \<Rightarrow> False | Some v \<Rightarrow> v \<in> S)"

text \<open>A document carries no score, or one that lies in the set.\<close>

definition score_absent_or_within :: "real set \<Rightarrow> document \<Rightarrow> bool" where
  "score_absent_or_within S doc =
     (case md_relevance_score (metadata doc) of None \<Rightarrow> True | Some v \<Rightarrow> v \<in> S)"

definition stored_documents :: "faiss \<Rightarrow> document list" where
  "stored_documents vs = (case docstore vs of Docstore ds \<Rightarrow> ds | _ \<Rightarrow> [])"

definition store_scores_within :: "real set \<Rightarrow> faiss \<Rightarrow> bool" where
  "store_scores_within S vs = list_all (score_absent_or_within S) (stored_documents vs)"

text \<open>Every score that a chunk stored in some index of the vector store carries lies in the set.\<close>

definition stored_scores_within :: "real set \<Rightarrow> vector_store \<Rightarrow> bool" where
  "stored_scores_within S s =
     ((case vectorstore s of None \<Rightarrow> True | Some vs \<Rightarrow> store_scores_within S vs)
      \<and> list_all (\<lambda>(department, vs). store_scores_within S vs) (department_vectorstores s))"

text \<open>
  The contract of the library's searches: for a budget \<open>k\<close> they answer at most \<open>k\<close> hits.
\<close>

definition index_bounded :: "faiss \<Rightarrow> bool" where
  "index_bounded vs =
     (case index vs of
        None \<Rightarrow> True
      | Some ix \<Rightarrow>
          (\<forall>query k fetch_k ps. mmr_positions ix query k fetch_k = Inr ps \<longrightarrow> length ps \<le> k)
        \<and> (\<forall>query k ps. similarity_positions ix query k = Inr ps \<longrightarrow> length ps \<le> k))"

text \<open>
  The partition holds a placeholder index: its document store has one entry, the sentinel
  text of the partition (the one of the primary build or the one of the fallback), which
  carries no score yet or one of the tier defaults.
\<close>

definition placeholder_partition :: "string \<Rightarrow> vector_store \<Rightarrow> bool" where
  "placeholder_partition department s =
     (case map_of (department_vectorstores s) department of
        None \<Rightarrow> False
      | Some vs \<Rightarrow>
          (map page_content (stored_documents vs) = [placeholder_text department]
           \<or> map page_content (stored_documents vs) = [fallback_text department])
          \<and> store_scores_within tier_defaults vs)"

subsection \<open>Examples\<close>

text \<open>
  An index over \<open>n\<close> documents that ranks them in the order of insertion, an outside world
  in which nothing fails, a vector store just constructed, and a chunk of a department.
\<close>

definition example_index :: "nat \<Rightarrow> faiss_index" where
  "example_index n =
     \<lparr> index_truthy = True,
       mmr_positions = (\<lambda>query k fetch_k. Inr (take k [0..<n])),
       similarity_positions = (\<lambda>query k. Inr (take k [0..<n])) \<rparr>"

definition example_env :: env where
  "example_env =
     \<lparr> build_index = (\<lambda>docs. Inr (example_index (length docs))),
       extend_index = (\<lambda>ix docs. Inr ix),
       makedirs_fails = (\<lambda>path. False),
       save_fails = (\<lambda>path. False) \<rparr>"

definition fresh_store :: vector_store where
  "fresh_store =
     \<lparr> faiss_index_path = ''faiss_index'', top_k_retrieval = 5, use_mmr = True,
       embed_query = (\<lambda>text. Inr [1]),
       vectorstore = None, department_vectorstores = [],
       dirs = {''faiss_index''}, saved = Map.empty, calls = [] \<rparr>"

definition chunk :: "string \<Rightarrow> string \<Rightarrow> real option \<Rightarrow> document" where
  "chunk text department score =
     \<lparr> page_content = text,
       metadata = empty_meta\<lparr>md_department := Some department, md_relevance_score := score\<rparr> \<rparr>"

text \<open>An index built over the documents given, and vector stores that hold such indices.\<close>

definition example_faiss :: "document list \<Rightarrow> faiss" where
  "example_faiss ds = \<lparr> docstore = Docstore ds, index = Some (example_index (length ds)) \<rparr>"

definition scored_store :: vector_store where
  "scored_store =
     fresh_store\<lparr>vectorstore :=
       Some (example_faiss [chunk ''first'' ''general'' (Some 0.2),
                            chunk ''second'' ''general'' (Some 1.5),
                            chunk ''third'' ''general'' None])\<rparr>"

definition six_chunks :: "document list" where
  "six_chunks = map (\<lambda>text. chunk text ''general'' None)
                  [''one'', ''two'', ''three'', ''four'', ''five'', ''six'']"

definition populated_store :: vector_store where
  "populated_store =
     fresh_store\<lparr>vectorstore := Some (example_faiss six_chunks),
                  department_vectorstores := [(''general'', example_faiss six_chunks)]\<rparr>"

definition two_partitions :: vector_store where
  "two_partitions =
     fresh_store\<lparr>department_vectorstores :=
       [(''a'', example_faiss [chunk ''from a'' ''a'' (Some 0.9)]),
        (''b'', example_faiss [chunk ''from b'' ''b'' (Some 0.9)])]\<rparr>"

text \<open>
  Whether \<open>search_across_departments\<close> fuses partitions: some partition is named or known.
  Otherwise the call is handed to the search of the global index.
\<close>

definition fuses :: "vector_store \<Rightarrow> string list option \<Rightarrow> bool" where
  "fuses s departments =
     (\<not> ((departments = None \<or> departments = Some []) \<and> department_vectorstores s = []))"

text \<open>The calls made between two states of the vector store.\<close>

definition calls_since :: "vector_store \<Rightarrow> vector_store \<Rightarrow> call list" where
  "calls_since s s' = drop (length (calls s)) (calls s')"

text \<open>An outside world in which saving fails, and one in which no index can be built.\<close>

definition unsaved_env :: env where
  "unsaved_env = example_env\<lparr>save_fails := (\<lambda>path. True)\<rparr>"

definition broken_env :: env where
  "broken_env = example_env\<lparr>build_index := (\<lambda>docs. Inl RuntimeError)\<rparr>"

text \<open>
  A global index whose first chunk carries the score of an earlier emergency enumeration,
  in a vector store that knows no partition.
\<close>

definition rescored_store :: vector_store where
  "rescored_store =
     fresh_store\<lparr>vectorstore :=
       Some (example_faiss [chunk ''first'' ''general'' (Some 0.6),
                            chunk ''second'' ''general'' None])\<rparr>"

text \<open>
  A returned chunk is a stored chunk annotated by one of the tiers: the search tier fills
  0.85 into a chunk without a score and keeps a score already there; the three enumeration
  tiers write their own score, 0.8, 0.7 or 0.6, over whatever is there.
\<close>

definition annotated_by_tier :: "string option \<Rightarrow> document \<Rightarrow> document \<Rightarrow> bool" where
  "annotated_by_tier dept stored returned =
     (returned = annotate_missing dept stored
      \<or> returned = annotate dept 0.8 stored
      \<or> returned = annotate dept 0.7 stored
      \<or> returned = annotate dept 0.6 stored)"

text \<open>All the chunks of one result come from stored chunks through one and the same tier.\<close>

definition tier_result :: "string option \<Rightarrow> document list \<Rightarrow> document list \<Rightarrow> bool" where
  "tier_result dept stored docs =
     (list_all (\<lambda>d. list_ex (\<lambda>d0. d = annotate_missing dept d0) stored) docs
      \<or> list_all (\<lambda>d. list_ex (\<lambda>d0. d = annotate dept 0.8 d0) stored) docs
      \<or> list_all (\<lambda>d. list_ex (\<lambda>d0. d = annotate dept 0.7 d0) stored) docs
      \<or> list_all (\<lambda>d. list_ex (\<lambda>d0. d = annotate dept 0.6 d0) stored) docs)"

text \<open>The chunks stored in the global index.\<close>

definition global_documents :: "vector_store \<Rightarrow> document list" where
  "global_documents s = (case vectorstore s of None \<Rightarrow> [] | Some vs \<Rightarrow> stored_documents vs)"

text \<open>The chunks stored in the index of a partition.\<close>

definition partition_documents :: "vector_store \<Rightarrow> string \<Rightarrow> document list" where
  "partition_documents s department =
     (case map_of (department_vectorstores s) department of
        None \<Rightarrow> []
      | Some vs \<Rightarrow> stored_documents vs)"

text \<open>A stored chunk after any number of searches: itself, or annotated by a tier.\<close>

definition derived :: "string option \<Rightarrow> document \<Rightarrow> document \<Rightarrow> bool" where
  "derived dept d0 d = (d = d0 \<or> annotated_by_tier dept d0 d)"

section \<open>Auxiliary facts\<close>

subsection \<open>Lists\<close>

lemma py_max_Max: "py_max x xs = Max (set (x # xs))"
  by (simp only: py_max_def Max.set_eq_fold)

lemma py_max_hd_tl: "xs \<noteq> [] \<Longrightarrow> py_max (hd xs) (tl xs) = Max (set xs)"
  by (cases xs) (simp_all add: py_max_Max del: set_simps)

lemma index_of_Some:
  "index_of v xs = Some i \<Longrightarrow> i < length xs \<and> xs ! i = v \<and> (\<forall>j<i. xs ! j \<noteq> v)"
proof (induction xs arbitrary: i)
  case Nil
  then show ?case by simp
next
  case (Cons x xs)
  show ?case
  proof (cases "x = v")
    case True
    with Cons.prems show ?thesis by simp
  next
    case False
    with Cons.prems obtain i' where i': "index_of v xs = Some i'" "i = Suc i'"
      by (auto split: option.splits)
    from Cons.IH [OF i'(1)] False i'(2) show ?thesis
      by (auto simp: nth_Cons split: nat.splits)
  qed
qed

lemma index_of_mem: "v \<in> set xs \<Longrightarrow> \<exists>i. index_of v xs = Some i"
  by (induction xs) auto

subsection \<open>Sentences and scores\<close>

lemma split_sentences_nonempty: "split_sentences s \<noteq> []"
proof -
  have "split_from acc s \<noteq> []" for acc
    by (induction acc s rule: split_from.induct) auto
  then show ?thesis by (simp add: split_sentences_def)
qed

lemma split_eight:
  "split_sentences ''S1. S2. S3. S4. S5. S6. S7. S8.''
     = [''S1.'', ''S2.'', ''S3.'', ''S4.'', ''S5.'', ''S6.'', ''S7.'', ''S8.'']"
  by code_simp

lemma split_empty: "split_sentences '''' = ['''']"
  by code_simp

lemma finite_query_terms: "finite (query_terms q)"
  by (simp add: query_terms_def)

lemma sentence_score_disjoint:
  "qt \<inter> set (py_split (py_lower s)) = {} \<Longrightarrow> sentence_score qt s = 0"
  by (simp add: sentence_score_def Let_def)

lemma sentence_score_overlap:
  assumes "finite qt" and "qt \<inter> set (py_split (py_lower s)) \<noteq> {}"
  shows "0 < sentence_score qt s"
proof -
  have "qt \<noteq> {}" using assms(2) by auto
  moreover have "0 < card (qt \<inter> set (py_split (py_lower s)))"
    using assms by (simp add: card_gt_0_iff)
  ultimately show ?thesis
    by (simp add: sentence_score_def Let_def)
qed

lemma score_or_fill: "score_or v (fill_score v d) = score_or v d"
  by (simp add: score_or_def fill_score_def set_score_def split: option.splits)

lemma terms_of_examples:
  "py_split (py_lower ''S1.'') = [''s1.'']" "py_split (py_lower ''S2.'') = [''s2.'']"
  "py_split (py_lower ''S3.'') = [''s3.'']" "py_split (py_lower ''S4.'') = [''s4.'']"
  "py_split (py_lower ''S5.'') = [''s5.'']" "py_split (py_lower ''S6.'') = [''s6.'']"
  "py_split (py_lower ''S7.'') = [''s7.'']" "py_split (py_lower ''S8.'') = [''s8.'']"
  by code_simp+

lemma overlaps_S5: "overlaps ''S5.'' ''S5.''"
  by (simp add: overlaps_def query_terms_def terms_of_examples)

lemma overlaps_others:
  "\<forall>s \<in> set [''S1.'', ''S2.'', ''S3.'', ''S4.'', ''S6.'', ''S7.'', ''S8.'']. \<not> overlaps ''S5.'' s"
  by (simp add: overlaps_def query_terms_def terms_of_examples)

subsection \<open>The refiner on one document\<close>

lemma window_doc_pass:
  "md_error (metadata doc) = Some True \<or> length (split_sentences (page_content doc)) \<le> 2 * w
     \<Longrightarrow> window_doc q w doc = doc"
  by (auto simp: window_doc_def Let_def mult.commute)

lemma window_doc_context:
  assumes noerr: "md_error (metadata doc) \<noteq> Some True"
    and long: "2 * w < length (split_sentences (page_content doc))"
    and noprefix: "\<not> (Max (set (sentence_scores q doc)) < 0.1
                      \<and> 10 < length (split_sentences (page_content doc)))"
  shows "\<exists>m. m < length (split_sentences (page_content doc))
           \<and> sentence_scores q doc ! m = Max (set (sentence_scores q doc))
           \<and> (\<forall>j<m. sentence_scores q doc ! j < sentence_scores q doc ! m)
           \<and> window_doc q w doc =
               \<lparr> page_content = join_space (slice (split_sentences (page_content doc))
                     (nat (max 0 (int m - int w)))
                     (min (length (split_sentences (page_content doc))) (m + w + 1))),
                 metadata = (metadata doc)
                    \<lparr> md_window_start := Some (nat (max 0 (int m - int w))),
                      md_window_end :=
                        Some (min (length (split_sentences (page_content doc))) (m + w + 1)),
                      md_central_sentence := Some m,
                      md_sentence_relevance := Some (sentence_scores q doc ! m),
                      md_window_type := Some ''context'' \<rparr> \<rparr>"
proof -
  define sentences where "sentences = split_sentences (page_content doc)"
  define scores where "scores = map (sentence_score (query_terms q)) sentences"
  have sc: "sentence_scores q doc = scores"
    by (simp add: sentence_scores_def scores_def sentences_def)
  have ne: "scores \<noteq> []"
    using long by (auto simp: scores_def sentences_def)
  have best: "py_max (hd scores) (tl scores) = Max (set scores)"
    using ne by (rule py_max_hd_tl)
  have "Max (set scores) \<in> set scores"
    using ne by (intro Max_in) auto
  then obtain m where m: "index_of (Max (set scores)) scores = Some m"
    using index_of_mem by fastforce
  from index_of_Some [OF m]
  have m1: "m < length scores" and m2: "scores ! m = Max (set scores)"
    and m3: "\<forall>j<m. scores ! j \<noteq> Max (set scores)"
    by auto
  have m4: "\<forall>j<m. scores ! j < scores ! m"
  proof (intro allI impI)
    fix j assume j: "j < m"
    then have "scores ! j \<in> set scores" using m1 by simp
    then have "scores ! j \<le> Max (set scores)" by simp
    with m3 j m2 show "scores ! j < scores ! m" by fastforce
  qed
  have sub: "nat (max 0 (int m - int w)) = m - w" by simp
  have "window_doc q w doc =
      \<lparr> page_content = join_space (slice sentences (m - w) (min (length sentences) (m + w + 1))),
        metadata = (metadata doc)
          \<lparr> md_window_start := Some (m - w),
            md_window_end := Some (min (length sentences) (m + w + 1)),
            md_central_sentence := Some m,
            md_sentence_relevance := Some (Max (set scores)),
            md_window_type := Some ''context'' \<rparr> \<rparr>"
    using noerr long noprefix m m2 best
    unfolding window_doc_def sc
    by (simp add: Let_def flip: sentences_def scores_def) (auto simp: mult.commute)
  with m1 m2 m4 show ?thesis
    unfolding sc sentences_def [symmetric]
    by (intro exI [of _ m]) (simp add: scores_def sub)
qed

lemma window_doc_example:
  assumes noerr: "md_error md \<noteq> Some True"
    and hit: "overlaps q ''S5.''"
    and miss: "\<forall>s \<in> set [''S1.'', ''S2.'', ''S3.'', ''S4.'', ''S6.'', ''S7.'', ''S8.''].
                 \<not> overlaps q s"
  shows "window_doc q 2 \<lparr>page_content = ''S1. S2. S3. S4. S5. S6. S7. S8.'', metadata = md\<rparr> =
          \<lparr> page_content = ''S3. S4. S5. S6. S7.'',
            metadata = md \<lparr> md_window_start := Some 2, md_window_end := Some 7,
                            md_central_sentence := Some 4,
                            md_sentence_relevance := Some (sentence_score (query_terms q) ''S5.''),
                            md_window_type := Some ''context'' \<rparr> \<rparr>"
proof -
  define c where "c = sentence_score (query_terms q) ''S5.''"
  have c: "0 < c"
    unfolding c_def using finite_query_terms hit [unfolded overlaps_def]
    by (rule sentence_score_overlap)
  have z: "sentence_score (query_terms q) s = 0"
    if "s \<in> set [''S1.'', ''S2.'', ''S3.'', ''S4.'', ''S6.'', ''S7.'', ''S8.'']" for s
    using miss that unfolding overlaps_def by (intro sentence_score_disjoint) blast
  have zs: "sentence_score (query_terms q) ''S1.'' = 0" "sentence_score (query_terms q) ''S2.'' = 0"
    "sentence_score (query_terms q) ''S3.'' = 0" "sentence_score (query_terms q) ''S4.'' = 0"
    "sentence_score (query_terms q) ''S6.'' = 0" "sentence_score (query_terms q) ''S7.'' = 0"
    "sentence_score (query_terms q) ''S8.'' = 0"
    by (rule z, simp)+
  have best: "py_max 0 [0, 0, 0, c, 0, 0, 0] = c"
    using c by (simp add: py_max_def)
  have idx: "index_of c [0, 0, 0, 0, c, 0, 0, 0] = Some 4"
    using c by simp
  have nth: "[0, 0, 0, 0, c, 0, 0, 0] ! 4 = c"
    by (simp add: eval_nat_numeral)
  have arith: "(4::nat) - 2 = 2" "min (8::nat) (4 + 2 + 1) = 7"
    by simp_all
  show ?thesis
    unfolding window_doc_def
    using noerr c
    by (simp add: split_eight zs best idx nth arith slice_def Let_def flip: c_def)
qed

subsection \<open>Documents updated in place\<close>

lemma length_update_positions [simp]: "length (update_positions f ps ds) = length ds"
  unfolding update_positions_def by (induction ps arbitrary: ds) auto

lemma update_positions_out:
  "p \<notin> set ps \<Longrightarrow> update_positions f ps ds ! p = ds ! p"
  unfolding update_positions_def by (induction ps arbitrary: ds) auto

lemma update_positions_in:
  assumes idem: "\<And>x. f (f x) = f x"
  shows "p \<in> set ps \<Longrightarrow> p < length ds \<Longrightarrow> update_positions f ps ds ! p = f (ds ! p)"
proof (induction ps arbitrary: ds)
  case Nil
  then show ?case by simp
next
  case (Cons a ps)
  have step: "update_positions f (a # ps) ds = update_positions f ps (ds[a := f (ds ! a)])"
    by (simp add: update_positions_def)
  show ?case
  proof (cases "p \<in> set ps")
    case True
    then have "update_positions f ps (ds[a := f (ds ! a)]) ! p = f (ds[a := f (ds ! a)] ! p)"
      using Cons.prems by (intro Cons.IH) auto
    then show ?thesis
      using Cons.prems idem by (cases "p = a") (auto simp: step)
  next
    case False
    with Cons.prems have pa: "p = a" by simp
    from False have "update_positions f ps (ds[a := f (ds ! a)]) ! p = ds[a := f (ds ! a)] ! p"
      by (rule update_positions_out)
    then show ?thesis using pa Cons.prems by (simp add: step)
  qed
qed

lemma update_positions_nth:
  assumes idem: "\<And>x. f (f x) = f x" and "i < length ds"
  shows "update_positions f ps ds ! i = (if i \<in> set ps then f (ds ! i) else ds ! i)"
  using assms update_positions_in [of f i ps ds] update_positions_out [of i ps f ds]
  by auto

lemma annotate_missing_idem:
  "annotate_missing dept (annotate_missing dept x) = annotate_missing dept x"
  by (cases dept) (auto simp: annotate_missing_def fill_score_def set_score_def set_department_def)

subsection \<open>The search never raises and respects the budget\<close>

lemma search_store_returns: "\<exists>docs vs'. search_store mmr dept vs query k = Inr (docs, vs')"
  by (auto simp: search_store_def split: sum.splits option.splits)

lemma docstore_fallback_length:
  "docstore_fallback dept v k vs = Some (docs, vs') \<Longrightarrow> length docs \<le> k"
  by (auto simp: docstore_fallback_def direct_retrieval_def Let_def split: docstore.splits if_splits)

lemma resolve_Inr:
  "resolve store ps = Inr ps' \<Longrightarrow>
     ps' = ps \<and> (ps \<noteq> [] \<longrightarrow> (\<exists>ds. store = Docstore ds \<and> (\<forall>p\<in>set ps. p < length ds)))"
  by (auto simp: resolve_def split: if_splits docstore.splits)

lemma search_primary_length:
  assumes "index_bounded vs" and "search_primary mmr vs query k = Inr ps"
  shows "length ps \<le> k"
  using assms
  by (auto simp: search_primary_def index_bounded_def max_marginal_relevance_search_def
        faiss_similarity_search_def
      split: if_splits sum.splits option.splits dest!: resolve_Inr)

lemma search_primary_resolved:
  assumes "search_primary mmr vs query k = Inr ps" and "ps \<noteq> []"
  shows "\<exists>ds. docstore vs = Docstore ds \<and> (\<forall>p\<in>set ps. p < length ds)"
  using assms
  by (auto simp: search_primary_def max_marginal_relevance_search_def
        faiss_similarity_search_def
      split: if_splits sum.splits option.splits dest!: resolve_Inr)

lemma annotate_found_length: "length (fst (annotate_found dept ps vs)) \<le> length ps"
  by (auto simp: annotate_found_def Let_def split: docstore.splits)

text \<open>The ways in which the body of a search ends.\<close>

lemma search_body_cases:
  assumes "search_body mmr dept vs query k = Inr (docs, vs')"
  obtains (direct) "index vs = None" "docstore_fallback dept 0.8 k vs = Some (docs, vs')"
  | (found) ps where "search_primary mmr vs query k = Inr ps"
      "annotate_found dept ps vs = (docs, vs')" "docs \<noteq> []"
  | (enumerated) ps vs0 where "search_primary mmr vs query k = Inr ps"
      "annotate_found dept ps vs = ([], vs0)" "docstore_fallback dept 0.7 k vs0 = Some (docs, vs')"
  | (none_found) ps where "search_primary mmr vs query k = Inr ps"
      "annotate_found dept ps vs = ([], vs')" "docs = []"
      "docstore_fallback dept 0.7 k vs' = None"
proof (cases "if index vs = None then docstore_fallback dept 0.8 k vs else None")
  case (Some r)
  with assms have "index vs = None" "docstore_fallback dept 0.8 k vs = Some (docs, vs')"
    by (auto simp: search_body_def split: if_splits)
  then show ?thesis by (rule direct)
next
  case None
  then obtain ps where ps: "search_primary mmr vs query k = Inr ps"
    using assms by (auto simp: search_body_def split: sum.splits)
  obtain ds0 vs0 where af: "annotate_found dept ps vs = (ds0, vs0)" by fastforce
  show ?thesis
  proof (cases "ds0 = []")
    case False
    with assms None ps af have eqs: "docs = ds0" "vs' = vs0"
      by (auto simp: search_body_def)
    show ?thesis
      by (rule found [of ps]) (use ps af False eqs in simp_all)
  next
    case True
    show ?thesis
    proof (cases "docstore_fallback dept 0.7 k vs0")
      case None': None
      with assms None ps af True have eqs: "docs = ds0" "vs' = vs0"
        by (auto simp: search_body_def)
      show ?thesis
        by (rule none_found [of ps]) (use ps af True None' eqs in simp_all)
    next
      case (Some r')
      with assms None ps af True have fb: "docstore_fallback dept 0.7 k vs0 = Some (docs, vs')"
        by (auto simp: search_body_def)
      show ?thesis
        by (rule enumerated [of ps vs0]) (use ps af True fb in simp_all)
    qed
  qed
qed

lemma search_store_cases:
  assumes "search_store mmr dept vs query k = Inr (docs, vs')"
  obtains (body) "search_body mmr dept vs query k = Inr (docs, vs')"
  | (emergency) e where "search_body mmr dept vs query k = Inl e"
      "docstore_fallback dept 0.6 k vs = Some (docs, vs')"
  | (empty) e where "search_body mmr dept vs query k = Inl e"
      "docstore_fallback dept 0.6 k vs = None" "docs = []" "vs' = vs"
  using assms by (auto simp: search_store_def split: sum.splits option.splits)

lemma search_store_length:
  assumes "index_bounded vs" and "search_store mmr dept vs query k = Inr (docs, vs')"
  shows "length docs \<le> k"
  using assms(2)
proof (cases rule: search_store_cases)
  case body
  then show ?thesis
  proof (cases rule: search_body_cases)
    case (found ps)
    have "length ps \<le> k" using assms(1) found(1) by (rule search_primary_length)
    moreover have "length docs \<le> length ps"
      using annotate_found_length [of dept ps vs] found(2) by simp
    ultimately show ?thesis by simp
  qed (auto dest: docstore_fallback_length)
qed (auto dest: docstore_fallback_length)


subsection \<open>Scores\<close>

lemma within_absent_or_within: "score_within S d \<Longrightarrow> score_absent_or_within S d"
  by (auto simp: score_within_def score_absent_or_within_def split: option.splits)

lemma score_absent_or_within_mono:
  "S \<subseteq> T \<Longrightarrow> score_absent_or_within S d \<Longrightarrow> score_absent_or_within T d"
  by (auto simp: score_absent_or_within_def split: option.splits)

lemma annotate_within: "v \<in> S \<Longrightarrow> score_within S (annotate dept v d)"
  by (cases dept) (auto simp: annotate_def score_within_def set_score_def set_department_def)

lemma annotate_missing_within:
  "0.85 \<in> S \<Longrightarrow> score_absent_or_within S d \<Longrightarrow> score_within S (annotate_missing dept d)"
  by (cases dept)
     (auto simp: annotate_missing_def score_within_def score_absent_or_within_def fill_score_def
        set_score_def set_department_def split: option.splits)

lemma set_department_within [simp]:
  "score_within S (set_department dept d) = score_within S d"
  by (simp add: score_within_def set_department_def)

lemma docstore_fallback_scores:
  assumes "docstore_fallback dept v k vs = Some (docs, vs')" "v \<in> S"
    "store_scores_within S vs"
  shows "list_all (score_within S) docs \<and> store_scores_within S vs'"
proof -
  from assms(1) obtain ds where ds: "docstore vs = Docstore ds" "ds \<noteq> []"
    and docs: "docs = map (annotate dept v) (take (min k (length ds)) ds)"
    and vs': "vs' = vs\<lparr>docstore := Docstore (docs @ drop (min k (length ds)) ds)\<rparr>"
    by (auto simp: docstore_fallback_def direct_retrieval_def Let_def
          split: docstore.splits if_splits)
  have a: "list_all (score_within S) docs"
    using assms(2) by (simp add: docs list_all_iff annotate_within)
  have "list_all (score_absent_or_within S) ds"
    using assms(3) ds by (simp add: store_scores_within_def stored_documents_def)
  then have "list_all (score_absent_or_within S) (drop (min k (length ds)) ds)"
    by (auto simp: list_all_iff dest: in_set_dropD)
  with a have "store_scores_within S vs'"
    by (auto simp: vs' store_scores_within_def stored_documents_def list_all_iff
          intro: within_absent_or_within)
  with a show ?thesis by simp
qed

lemma annotate_found_scores:
  assumes "annotate_found dept ps vs = (docs, vs')" "store_scores_within S vs" "0.85 \<in> S"
    and valid: "ps \<noteq> [] \<longrightarrow> (\<exists>ds. docstore vs = Docstore ds \<and> (\<forall>p\<in>set ps. p < length ds))"
  shows "list_all (score_within S) docs \<and> store_scores_within S vs'"
proof (cases "docstore vs")
  case (Docstore ds)
  let ?ds' = "update_positions (annotate_missing dept) ps ds"
  have docs: "docs = map (\<lambda>p. ?ds' ! p) ps" and vs': "vs' = vs\<lparr>docstore := Docstore ?ds'\<rparr>"
    using assms(1) Docstore by (auto simp: annotate_found_def Let_def)
  have adm: "\<forall>d\<in>set ds. score_absent_or_within S d"
    using assms(2) Docstore
    by (simp add: store_scores_within_def stored_documents_def list_all_iff)
  have nth: "?ds' ! i = (if i \<in> set ps then annotate_missing dept (ds ! i) else ds ! i)"
    if "i < length ds" for i
    using that by (intro update_positions_nth) (simp_all add: annotate_missing_idem)
  have bound: "\<forall>p\<in>set ps. p < length ds"
    using valid Docstore by (cases "ps = []") auto
  have a: "list_all (score_within S) docs"
    unfolding docs list_all_iff
  proof
    fix d assume "d \<in> set (map (\<lambda>p. ?ds' ! p) ps)"
    then obtain p where p: "p \<in> set ps" "d = ?ds' ! p" by auto
    with bound have "p < length ds" by simp
    with p nth have "d = annotate_missing dept (ds ! p)" by simp
    moreover have "score_absent_or_within S (ds ! p)" using adm \<open>p < length ds\<close> by simp
    ultimately show "score_within S d" using assms(3) by (simp add: annotate_missing_within)
  qed
  have "\<forall>d\<in>set ?ds'. score_absent_or_within S d"
  proof
    fix d assume "d \<in> set ?ds'"
    then obtain i where i: "i < length ds" "d = ?ds' ! i"
      by (auto simp: in_set_conv_nth)
    have "score_absent_or_within S (ds ! i)" using adm i(1) by simp
    then show "score_absent_or_within S d"
      using i(2) nth [OF i(1)] assms(3)
        within_absent_or_within [OF annotate_missing_within, of S "ds ! i" dept]
      by (cases "i \<in> set ps") simp_all
  qed
  then have "store_scores_within S vs'"
    by (simp add: vs' store_scores_within_def stored_documents_def list_all_iff)
  with a show ?thesis by simp
next
  case DocstoreAbsent
  with assms show ?thesis by (auto simp: annotate_found_def)
next
  case DocstoreBroken
  with assms show ?thesis by (auto simp: annotate_found_def)
qed

lemma search_store_scores:
  assumes "search_store mmr dept vs query k = Inr (docs, vs')" "store_scores_within S vs"
    and "tier_defaults \<subseteq> S"
  shows "list_all (score_within S) docs \<and> store_scores_within S vs'"
proof -
  from assms(3) have S: "0.85 \<in> S" "0.8 \<in> S" "0.7 \<in> S" "0.6 \<in> S"
    by (auto simp: tier_defaults_def)
  from assms(1) show ?thesis
  proof (cases rule: search_store_cases)
    case body
    then show ?thesis
    proof (cases rule: search_body_cases)
      case direct
      from docstore_fallback_scores [OF direct(2) S(2) assms(2)] show ?thesis .
    next
      case (found ps)
      have "ps \<noteq> [] \<longrightarrow> (\<exists>ds. docstore vs = Docstore ds \<and> (\<forall>p\<in>set ps. p < length ds))"
        using search_primary_resolved [OF found(1)] by blast
      from annotate_found_scores [OF found(2) assms(2) S(1) this] show ?thesis .
    next
      case (enumerated ps vs0)
      have "ps \<noteq> [] \<longrightarrow> (\<exists>ds. docstore vs = Docstore ds \<and> (\<forall>p\<in>set ps. p < length ds))"
        using search_primary_resolved [OF enumerated(1)] by blast
      from annotate_found_scores [OF enumerated(2) assms(2) S(1) this]
      have "store_scores_within S vs0" by simp
      from docstore_fallback_scores [OF enumerated(3) S(3) this] show ?thesis .
    next
      case (none_found ps)
      have "ps \<noteq> [] \<longrightarrow> (\<exists>ds. docstore vs = Docstore ds \<and> (\<forall>p\<in>set ps. p < length ds))"
        using search_primary_resolved [OF none_found(1)] by blast
      from annotate_found_scores [OF none_found(2) assms(2) S(1) this] none_found(3)
      show ?thesis by simp
    qed
  next
    case (emergency e)
    from docstore_fallback_scores [OF emergency(2) S(4) assms(2)] show ?thesis .
  next
    case (empty e)
    with assms(2) show ?thesis by simp
  qed
qed

subsection \<open>The vector store as a whole\<close>

lemma map_of_dict_set:
  "map_of (dict_set key v xs) key' = (if key' = key then Some v else map_of xs key')"
  by (induction xs) auto

lemma set_dict_set: "set (dict_set key v xs) \<subseteq> insert (key, v) (set xs)"
  by (induction xs) (auto split: if_splits)

lemma list_all_dict_set:
  "P (key, v) \<Longrightarrow> list_all P xs \<Longrightarrow> list_all P (dict_set key v xs)"
  using set_dict_set [of key v xs] by (auto simp: list_all_iff)

lemma similarity_search_returns:
  "\<exists>docs s'. similarity_search s query k = Inr (docs, s')"
proof (cases "vectorstore s")
  case None
  then show ?thesis by (simp add: similarity_search_def)
next
  case (Some vs)
  obtain docs vs' where "search_store (use_mmr s) None vs query (effective_k s k) = Inr (docs, vs')"
    using search_store_returns by blast
  with Some show ?thesis by (simp add: similarity_search_def)
qed

lemma similarity_search_Inr:
  assumes "similarity_search s query k = Inr (docs, s')"
  shows "(vectorstore s = None \<and> docs = [] \<and> s' = s)
       \<or> (\<exists>vs vs'. vectorstore s = Some vs
            \<and> search_store (use_mmr s) None vs query (effective_k s k) = Inr (docs, vs')
            \<and> s' = s\<lparr>vectorstore := Some vs'\<rparr>)"
  using assms by (auto simp: similarity_search_def split: option.splits sum.splits)

lemma search_department_returns:
  "\<exists>docs s'. search_department s query department k = Inr (docs, s')"
proof (cases "map_of (department_vectorstores s) department")
  case None
  then show ?thesis by (simp add: search_department_def)
next
  case (Some vs)
  obtain docs vs' where
    "search_store (use_mmr s) (Some department) vs query (effective_k s k) = Inr (docs, vs')"
    using search_store_returns by blast
  with Some show ?thesis by (simp add: search_department_def)
qed

lemma search_department_Inr:
  assumes "search_department s query department k = Inr (docs, s')"
  shows "(map_of (department_vectorstores s) department = None \<and> docs = [] \<and> s' = s)
       \<or> (\<exists>vs vs'. map_of (department_vectorstores s) department = Some vs
            \<and> search_store (use_mmr s) (Some department) vs query (effective_k s k)
                = Inr (docs, vs')
            \<and> s' = s\<lparr>department_vectorstores :=
                        dict_set department vs' (department_vectorstores s)\<rparr>)"
  using assms by (auto simp: search_department_def split: option.splits sum.splits)

lemma similarity_search_scores:
  assumes "similarity_search s query k = Inr (docs, s')" "stored_scores_within S s"
    "tier_defaults \<subseteq> S"
  shows "list_all (score_within S) docs \<and> stored_scores_within S s'"
  using similarity_search_Inr [OF assms(1)]
proof (elim disjE exE conjE)
  fix vs vs'
  assume vs: "vectorstore s = Some vs"
    and st: "search_store (use_mmr s) None vs query (effective_k s k) = Inr (docs, vs')"
    and s': "s' = s\<lparr>vectorstore := Some vs'\<rparr>"
  have "store_scores_within S vs" using assms(2) vs by (simp add: stored_scores_within_def)
  from search_store_scores [OF st this assms(3)] show ?thesis
    using assms(2) by (simp add: s' stored_scores_within_def)
qed (use assms(2) in simp)

lemma search_department_scores:
  assumes "search_department s query department k = Inr (docs, s')" "stored_scores_within S s"
    "tier_defaults \<subseteq> S"
  shows "list_all (score_within S) docs \<and> stored_scores_within S s'"
  using search_department_Inr [OF assms(1)]
proof (elim disjE exE conjE)
  fix vs vs'
  assume vs: "map_of (department_vectorstores s) department = Some vs"
    and st: "search_store (use_mmr s) (Some department) vs query (effective_k s k)
               = Inr (docs, vs')"
    and s': "s' = s\<lparr>department_vectorstores :=
                        dict_set department vs' (department_vectorstores s)\<rparr>"
  have "(department, vs) \<in> set (department_vectorstores s)"
    using vs by (rule map_of_SomeD)
  then have "store_scores_within S vs"
    using assms(2) by (auto simp: stored_scores_within_def list_all_iff)
  from search_store_scores [OF st this assms(3)]
  have r: "list_all (score_within S) docs" "store_scores_within S vs'" by simp_all
  have "list_all (\<lambda>(department, vs). store_scores_within S vs)
          (dict_set department vs' (department_vectorstores s))"
    using r(2) assms(2) by (intro list_all_dict_set) (simp_all add: stored_scores_within_def)
  with r(1) assms(2) show ?thesis
    by (simp add: s' stored_scores_within_def)
qed (use assms(2) in simp)


subsection \<open>The scan over the partitions\<close>

lemma scan_departments_scores:
  assumes "tier_defaults \<subseteq> S"
  shows "stored_scores_within S s \<Longrightarrow> scan_departments s query k departments = (docs, s')
           \<Longrightarrow> list_all (score_within S) docs \<and> stored_scores_within S s'"
proof (induction departments arbitrary: s docs s')
  case Nil
  then show ?case by simp
next
  case (Cons department rest)
  show ?case
  proof (cases "map_of (department_vectorstores s) department")
    case None
    with Cons.prems(2) have "scan_departments s query k rest = (docs, s')" by simp
    from Cons.IH [OF Cons.prems(1) this] show ?thesis .
  next
    case (Some vs)
    obtain dept_results s1 where
      sd: "search_department s query department (Some k) = Inr (dept_results, s1)"
      using search_department_returns by blast
    obtain more s2 where more: "scan_departments s1 query k rest = (more, s2)"
      by fastforce
    from search_department_scores [OF sd Cons.prems(1) assms]
    have r1: "list_all (score_within S) dept_results" "stored_scores_within S s1" by simp_all
    from Cons.IH [OF r1(2) more]
    have r2: "list_all (score_within S) more" "stored_scores_within S s2" by simp_all
    from Cons.prems(2) Some sd more
    have "docs = map (set_department department) dept_results @ more" "s' = s2"
      by simp_all
    with r1 r2 show ?thesis by (auto simp: list_all_iff)
  qed
qed

lemma stored_scores_within_UNIV: "stored_scores_within UNIV s"
  by (auto simp: stored_scores_within_def store_scores_within_def score_absent_or_within_def
        list_all_iff split: option.splits)

lemma score_missing_scored: "score_within S d \<Longrightarrow> score_missing s qe d = d"
  by (auto simp: score_within_def score_missing_def split: option.splits)

lemma map_score_missing_scored:
  "list_all (score_within S) docs \<Longrightarrow> map (score_missing s qe) docs = docs"
  by (induction docs) (auto simp: score_missing_scored)

subsection \<open>The example index\<close>

lemma update_positions_prefix:
  assumes idem: "\<And>x. f (f x) = f x"
  shows "update_positions f (take k [0..<length ds]) ds = map f (take k ds) @ drop k ds"
proof (rule nth_equalityI)
  show "length (update_positions f (take k [0..<length ds]) ds)
          = length (map f (take k ds) @ drop k ds)"
    by simp
next
  fix i assume "i < length (update_positions f (take k [0..<length ds]) ds)"
  then have i: "i < length ds" by simp
  have mem: "i \<in> set (take k [0..<length ds]) \<longleftrightarrow> i < k"
    using i by (auto simp: in_set_conv_nth)
  show "update_positions f (take k [0..<length ds]) ds ! i = (map f (take k ds) @ drop k ds) ! i"
    using i mem by (simp add: update_positions_nth [OF idem] nth_append)
qed

lemma search_store_example:
  assumes "ds \<noteq> []" "0 < k"
  shows "search_store mmr dept \<lparr>docstore = Docstore ds, index = Some (example_index (length ds))\<rparr>
           query k
         = Inr (map (annotate_missing dept) (take k ds),
                \<lparr>docstore = Docstore (map (annotate_missing dept) (take k ds) @ drop k ds),
                  index = Some (example_index (length ds))\<rparr>)"
proof -
  let ?vs = "\<lparr>docstore = Docstore ds, index = Some (example_index (length ds))\<rparr>"
  let ?ps = "take k [0..<length ds]"
  have ne: "?ps \<noteq> []" using assms by simp
  have bound: "\<forall>p\<in>set ?ps. p < length ds"
    by (auto dest: in_set_takeD)
  have res: "resolve (Docstore ds) ?ps = Inr ?ps"
    using ne bound by (simp add: resolve_def)
  have mmr: "max_marginal_relevance_search ?vs query k (k * 3) = Inr ?ps"
    by (simp add: max_marginal_relevance_search_def example_index_def res)
  have sim: "faiss_similarity_search ?vs query k = Inr ?ps"
    by (simp add: faiss_similarity_search_def example_index_def res)
  have prim: "search_primary mmr ?vs query k = Inr ?ps"
    using ne by (simp add: search_primary_def mmr sim)
  let ?ds' = "map (annotate_missing dept) (take k ds) @ drop k ds"
  have upd: "update_positions (annotate_missing dept) ?ps ds = ?ds'"
    by (rule update_positions_prefix) (rule annotate_missing_idem)
  have docs: "map (\<lambda>p. ?ds' ! p) ?ps = map (annotate_missing dept) (take k ds)"
    by (rule nth_equalityI) (auto simp: nth_append)
  have af: "annotate_found dept ?ps ?vs
              = (map (annotate_missing dept) (take k ds), ?vs\<lparr>docstore := Docstore ?ds'\<rparr>)"
    by (simp add: annotate_found_def upd docs Let_def)
  have nonempty: "map (annotate_missing dept) (take k ds) \<noteq> []"
    using assms by simp
  have "search_body mmr dept ?vs query k
          = Inr (map (annotate_missing dept) (take k ds), ?vs\<lparr>docstore := Docstore ?ds'\<rparr>)"
    using nonempty by (simp add: search_body_def prim af)
  then show ?thesis by (simp add: search_store_def)
qed

lemma store_scores_within_mono:
  "S \<subseteq> T \<Longrightarrow> store_scores_within S vs \<Longrightarrow> store_scores_within T vs"
  by (auto simp: store_scores_within_def list_all_iff intro: score_absent_or_within_mono)

lemma stored_scores_within_mono:
  assumes "S \<subseteq> T" "stored_scores_within S s"
  shows "stored_scores_within T s"
proof -
  have "store_scores_within T vs" if "(d, vs) \<in> set (department_vectorstores s)" for d vs
    using that assms by (auto simp: stored_scores_within_def list_all_iff
        intro: store_scores_within_mono [of S T])
  moreover have "store_scores_within T vs" if "vectorstore s = Some vs" for vs
    using that assms by (auto simp: stored_scores_within_def
        intro: store_scores_within_mono [of S T])
  ultimately show ?thesis
    by (auto simp: stored_scores_within_def list_all_iff split: option.splits)
qed

lemma search_store_example_faiss:
  assumes "ds \<noteq> []" "0 < k"
  shows "search_store mmr dept (example_faiss ds) query k
         = Inr (map (annotate_missing dept) (take k ds),
                \<lparr>docstore = Docstore (map (annotate_missing dept) (take k ds) @ drop k ds),
                  index = Some (example_index (length ds))\<rparr>)"
  unfolding example_faiss_def using assms by (rule search_store_example)

lemma index_bounded_example: "index_bounded (example_faiss ds)"
  by (auto simp: index_bounded_def example_faiss_def example_index_def)

subsection \<open>Fusion\<close>

lemma search_across_delegates:
  "\<not> fuses s departments \<Longrightarrow>
     search_across_departments s query departments k = similarity_search s query k"
  by (simp add: search_across_departments_def fuses_def)

lemma scan_departments_scored:
  "scan_departments s query k departments = (docs, s') \<Longrightarrow> list_all (score_within UNIV) docs"
  using scan_departments_scores [of UNIV s query k departments docs s']
    stored_scores_within_UNIV
  by simp

lemma search_across_fused:
  assumes "fuses s departments"
    and "scan_departments s query (effective_k s k) (scanned_departments s departments)
           = (merged, s')"
  shows "search_across_departments s query departments k
           = Inr (take (effective_k s k) (sort_by_relevance merged), s')"
proof -
  have "list_all (score_within UNIV) merged"
    using assms(2) by (rule scan_departments_scored)
  then have m: "map (score_missing s qe) merged = merged" for qe
    by (rule map_score_missing_scored)
  have c: "\<not> ((departments = None \<or> departments = Some []) \<and> department_vectorstores s = [])"
    using assms(1) unfolding fuses_def .
  show ?thesis
    unfolding search_across_departments_def if_not_P [OF c]
    by (simp add: Let_def assms(2) m)
qed

lemma set_sort_by_relevance [simp]: "set (sort_by_relevance docs) = set docs"
  by (simp add: sort_by_relevance_def)

lemma search_across_scores:
  assumes "search_across_departments s query departments k = Inr (docs, s')"
    "stored_scores_within S s" "tier_defaults \<subseteq> S"
  shows "list_all (score_within S) docs \<and> stored_scores_within S s'"
proof (cases "fuses s departments")
  case False
  with assms(1) have "similarity_search s query k = Inr (docs, s')"
    by (simp add: search_across_delegates)
  from similarity_search_scores [OF this assms(2,3)] show ?thesis .
next
  case True
  obtain merged s1 where
    sc: "scan_departments s query (effective_k s k) (scanned_departments s departments)
           = (merged, s1)"
    by fastforce
  from search_across_fused [OF True sc] assms(1)
  have eq: "docs = take (effective_k s k) (sort_by_relevance merged)" "s' = s1" by simp_all
  from scan_departments_scores [OF assms(3,2) sc]
  have m: "list_all (score_within S) merged" "stored_scores_within S s1" by simp_all
  have "set docs \<subseteq> set merged"
    unfolding eq using set_take_subset [of "effective_k s k" "sort_by_relevance merged"] by simp
  with m eq show ?thesis by (auto simp: list_all_iff)
qed

lemma search_across_returns:
  "\<exists>docs s'. search_across_departments s query departments k = Inr (docs, s')"
proof (cases "fuses s departments")
  case False
  then show ?thesis
    using similarity_search_returns [of s query k] by (simp add: search_across_delegates)
next
  case True
  obtain merged s1 where
    "scan_departments s query (effective_k s k) (scanned_departments s departments)
           = (merged, s1)"
    by fastforce
  from search_across_fused [OF True this] show ?thesis by blast
qed

subsection \<open>The example stores\<close>

lemma similarity_search_scored_store:
  "0 < n \<Longrightarrow> result_docs (similarity_search scored_store ''q'' (Some n)) =
     map (annotate_missing None)
       (take n [chunk ''first'' ''general'' (Some 0.2),
                chunk ''second'' ''general'' (Some 1.5),
                chunk ''third'' ''general'' None])"
  by (simp add: similarity_search_def scored_store_def fresh_store_def effective_k_def
        search_store_example_faiss result_docs_def)

lemma similarity_search_populated:
  "result_docs (similarity_search populated_store ''q'' k) =
     map (annotate_missing None) (take (effective_k populated_store k) six_chunks)"
proof -
  have k: "0 < effective_k populated_store k"
    by (simp add: effective_k_def populated_store_def fresh_store_def split: option.splits)
  have ne: "six_chunks \<noteq> []" by (simp add: six_chunks_def)
  have vs: "vectorstore populated_store = Some (example_faiss six_chunks)"
    by (simp add: populated_store_def)
  show ?thesis
    by (simp add: similarity_search_def vs search_store_example_faiss [OF ne k] result_docs_def)
qed

lemma search_department_populated:
  "result_docs (search_department populated_store ''q'' ''general'' k) =
     map (annotate_missing (Some ''general'')) (take (effective_k populated_store k) six_chunks)"
proof -
  have k: "0 < effective_k populated_store k"
    by (simp add: effective_k_def populated_store_def fresh_store_def split: option.splits)
  have ne: "six_chunks \<noteq> []" by (simp add: six_chunks_def)
  have vs: "map_of (department_vectorstores populated_store) ''general''
              = Some (example_faiss six_chunks)"
    by (simp add: populated_store_def)
  show ?thesis
    by (simp add: search_department_def vs search_store_example_faiss [OF ne k] result_docs_def)
qed

lemma populated_scores: "stored_scores_within {} populated_store"
  by (simp add: stored_scores_within_def populated_store_def fresh_store_def
        store_scores_within_def stored_documents_def example_faiss_def six_chunks_def
        score_absent_or_within_def chunk_def)

subsection \<open>Initialisation\<close>

lemma placeholder_not_fallback: "placeholder_text d \<noteq> fallback_text d"
  by (simp add: placeholder_text_def fallback_text_def)

lemma calls_record_call [simp]: "calls (record_call c s) = calls s @ [c]"
  by (simp add: record_call_def)

lemma stores_record_call [simp]:
  "department_vectorstores (record_call c s) = department_vectorstores s"
  "vectorstore (record_call c s) = vectorstore s"
  "saved (record_call c s) = saved s"
  "faiss_index_path (record_call c s) = faiss_index_path s"
  by (simp_all add: record_call_def)

lemma calls_set_department_store [simp]: "calls (set_department_store d vs s) = calls s"
  by (simp add: set_department_store_def)

lemma map_of_set_department_store [simp]:
  "map_of (department_vectorstores (set_department_store d vs s)) d = Some vs"
  by (simp add: set_department_store_def map_of_dict_set)

lemma save_local_result:
  "save_local e path vs s = (r, s') \<Longrightarrow>
     calls s' = calls s @ [SaveLocal path]
     \<and> department_vectorstores s' = department_vectorstores s
     \<and> vectorstore s' = vectorstore s"
  by (auto simp: save_local_def Let_def record_call_def split: if_splits)

lemma makedirs_result:
  "makedirs e path s = (r, s') \<Longrightarrow>
     calls s' = calls s @ [MakeDirs path]
     \<and> department_vectorstores s' = department_vectorstores s
     \<and> vectorstore s' = vectorstore s
     \<and> saved s' = saved s
     \<and> faiss_index_path s' = faiss_index_path s
     \<and> (\<forall>u. r = Inr u \<longrightarrow> path \<in> dirs s')"
  by (auto simp: makedirs_def Let_def record_call_def split: if_splits)

lemma try_load_result:
  "try_load attempt path s = (r, s') \<Longrightarrow>
     calls s' = calls s @ (if attempt then [LoadLocal path] else [])
     \<and> department_vectorstores s' = department_vectorstores s
     \<and> vectorstore s' = vectorstore s
     \<and> r = (if attempt then saved s path else None)"
  by (auto simp: try_load_def split: if_splits)

lemma from_texts_Inr:
  "from_texts e texts = Inr vs \<Longrightarrow>
     docstore vs = Docstore (map (\<lambda>t. \<lparr>page_content = t, metadata = empty_meta\<rparr>) texts)"
  by (auto simp: from_texts_def from_documents_def split: sum.splits)

lemma build_department_call:
  "fst (build_department_vectorstore e d chunks) \<noteq> FromTexts [fallback_text d]"
  using placeholder_not_fallback [of d]
  by (simp add: build_department_vectorstore_def Let_def)

lemma build_department_placeholder:
  assumes "no_chunks chunks" "build_department_vectorstore e d chunks = (c, Inr vs)"
  shows "docstore vs = Docstore [\<lparr>page_content = placeholder_text d, metadata = empty_meta\<rparr>]"
  using assms by (auto simp: build_department_vectorstore_def dest: from_texts_Inr)

text \<open>The ways in which the \<open>try\<close> block of a partition ends.\<close>

lemma initialize_department_try_cases:
  fixes e s d chunks rebuild
  defines "path \<equiv> path_join (faiss_index_path s) d"
  defines "r \<equiv> initialize_department_vectorstore_try e s d chunks rebuild"
  obtains
    (no_directory) err where "fst r = Inl err" "calls (snd r) = calls s @ [MakeDirs path]"
      "department_vectorstores (snd r) = department_vectorstores s"
  | (loaded) vs where "fst r = Inr True" "\<not> rebuild" "no_chunks chunks"
      "saved s path = Some vs"
      "calls (snd r) = calls s @ [MakeDirs path, LoadLocal path]"
      "map_of (department_vectorstores (snd r)) d = Some vs"
  | (not_built) err c ld where "fst r = Inl err"
      "build_department_vectorstore e d chunks = (c, Inl err)"
      "calls (snd r) = calls s @ [MakeDirs path] @ ld @ [c]" "set ld \<subseteq> {LoadLocal path}"
      "department_vectorstores (snd r) = department_vectorstores s"
  | (not_saved) err c vs ld where "fst r = Inl err"
      "build_department_vectorstore e d chunks = (c, Inr vs)"
      "calls (snd r) = calls s @ [MakeDirs path] @ ld @ [c, SaveLocal path]"
      "set ld \<subseteq> {LoadLocal path}"
      "map_of (department_vectorstores (snd r)) d = Some vs"
  | (built) c vs ld where "fst r = Inr True" "rebuild \<or> \<not> no_chunks chunks \<or> saved s path = None"
      "build_department_vectorstore e d chunks = (c, Inr vs)"
      "calls (snd r) = calls s @ [MakeDirs path] @ ld @ [c, SaveLocal path]"
      "set ld \<subseteq> {LoadLocal path}"
      "map_of (department_vectorstores (snd r)) d = Some vs"
proof -
  obtain r1 s1 where mk: "makedirs e path s = (r1, s1)" by fastforce
  note m = makedirs_result [OF mk]
  show ?thesis
  proof (cases r1)
    case (Inl err)
    with mk have "r = (Inl err, s1)"
      by (simp add: r_def initialize_department_vectorstore_try_def path_def [symmetric])
    with m show ?thesis by (intro no_directory [of err]) simp_all
  next
    case (Inr u)
    let ?attempt = "path \<in> dirs s1 \<and> \<not> rebuild \<and> no_chunks chunks"
    obtain ld s2 where tl: "try_load ?attempt path s1 = (ld, s2)" by fastforce
    note t = try_load_result [OF tl]
    show ?thesis
    proof (cases ld)
      case (Some vs)
      with mk Inr tl have "r = (Inr True, set_department_store d vs s2)"
        by (simp add: r_def initialize_department_vectorstore_try_def path_def [symmetric])
      moreover from Some t have att: "?attempt" "saved s1 path = Some vs"
        by (auto split: if_splits)
      ultimately show ?thesis
        using m t by (intro loaded [of vs]) simp_all
    next
      case None
      let ?ld = "if ?attempt then [LoadLocal path] else []"
      have noload: "rebuild \<or> \<not> no_chunks chunks \<or> saved s path = None"
        using None t m Inr by (auto split: if_splits)
      obtain c b where bd: "build_department_vectorstore e d chunks = (c, b)" by fastforce
      show ?thesis
      proof (cases b)
        case (Inl err)
        with mk Inr tl None bd have "r = (Inl err, record_call c s2)"
          by (simp add: r_def initialize_department_vectorstore_try_def path_def [symmetric])
        then show ?thesis
          using m t bd Inl by (intro not_built [of err c ?ld]) auto
      next
        case built': (Inr vs)
        obtain r3 s3 where sv: "save_local e path vs (set_department_store d vs (record_call c s2))
                                  = (r3, s3)"
          by fastforce
        note v = save_local_result [OF sv]
        show ?thesis
        proof (cases r3)
          case (Inl err)
          with mk Inr tl None bd built' sv have "r = (Inl err, s3)"
            by (simp add: r_def initialize_department_vectorstore_try_def path_def [symmetric])
          then show ?thesis
            using m t v bd built' by (intro not_saved [of err c vs ?ld]) auto
        next
          case saved': (Inr u')
          with mk Inr tl None bd built' sv have "r = (Inr True, s3)"
            by (simp add: r_def initialize_department_vectorstore_try_def path_def [symmetric])
          then show ?thesis
            using m t v bd built' noload by (intro built [of c vs ?ld]) auto
        qed
      qed
    qed
  qed
qed


lemma initialize_department_try_summary:
  "\<exists>new. calls (snd (initialize_department_vectorstore_try e s d chunks rebuild)) = calls s @ new
     \<and> FromTexts [fallback_text d] \<notin> set new
     \<and> (\<forall>b. fst (initialize_department_vectorstore_try e s d chunks rebuild) = Inr b
            \<longrightarrow> b \<and> map_of (department_vectorstores
                    (snd (initialize_department_vectorstore_try e s d chunks rebuild))) d \<noteq> None)"
proof (cases rule: initialize_department_try_cases [of e s d chunks rebuild])
  case (no_directory err)
  then show ?thesis by simp
next
  case (loaded vs)
  then show ?thesis by simp
next
  case (not_built err c ld)
  moreover have "c \<noteq> FromTexts [fallback_text d]"
    using build_department_call [of e d chunks] not_built(2) by simp
  ultimately show ?thesis by auto
next
  case (not_saved err c vs ld)
  moreover have "c \<noteq> FromTexts [fallback_text d]"
    using build_department_call [of e d chunks] not_saved(2) by simp
  ultimately show ?thesis by auto
next
  case (built c vs ld)
  moreover have "c \<noteq> FromTexts [fallback_text d]"
    using build_department_call [of e d chunks] built(3) by simp
  ultimately show ?thesis by auto
qed

lemma initialize_department_after_success:
  assumes "fst (initialize_department_vectorstore_try e s d chunks rebuild) = Inr b"
  shows "initialize_department_vectorstore e s d chunks rebuild
           = (b, snd (initialize_department_vectorstore_try e s d chunks rebuild))"
  using assms
  by (cases "initialize_department_vectorstore_try e s d chunks rebuild")
     (simp add: initialize_department_vectorstore_def)

lemma initialize_department_after_failure:
  assumes "fst (initialize_department_vectorstore_try e s d chunks rebuild) = Inl err"
  shows "initialize_department_vectorstore e s d chunks rebuild
           = (case from_texts e [fallback_text d] of
                Inr vs \<Rightarrow> (True, set_department_store d vs
                   (record_call (FromTexts [fallback_text d])
                      (snd (initialize_department_vectorstore_try e s d chunks rebuild))))
              | Inl err' \<Rightarrow> (False, record_call (FromTexts [fallback_text d])
                      (snd (initialize_department_vectorstore_try e s d chunks rebuild))))"
  using assms
  by (cases "initialize_department_vectorstore_try e s d chunks rebuild")
     (simp add: initialize_department_vectorstore_def Let_def split: sum.splits)

lemma calls_since_append: "calls s' = calls s @ new \<Longrightarrow> calls_since s s' = new"
  by (simp add: calls_since_def)

lemma initialize_department_policy:
  fixes e s d chunks rebuild
  defines "r \<equiv> initialize_department_vectorstore_try e s d chunks rebuild"
  defines "res \<equiv> initialize_department_vectorstore e s d chunks rebuild"
  shows "(isl (fst r) \<longrightarrow>
            count_list (calls_since s (snd res)) (FromTexts [fallback_text d]) = 1)
       \<and> (\<not> isl (fst r) \<longrightarrow>
            count_list (calls_since s (snd res)) (FromTexts [fallback_text d]) = 0 \<and> fst res)
       \<and> (\<not> fst res \<longleftrightarrow> isl (fst r) \<and> isl (from_texts e [fallback_text d]))
       \<and> (fst res \<longrightarrow> map_of (department_vectorstores (snd res)) d \<noteq> None)"
proof -
  obtain new where new: "calls (snd r) = calls s @ new" "FromTexts [fallback_text d] \<notin> set new"
    and ok: "\<forall>b. fst r = Inr b \<longrightarrow> b \<and> map_of (department_vectorstores (snd r)) d \<noteq> None"
    using initialize_department_try_summary [of e s d chunks rebuild] unfolding r_def by blast
  have zero: "count_list new (FromTexts [fallback_text d]) = 0"
    using new(2) by (simp add: count_list_0_iff)
  show ?thesis
  proof (cases "fst r")
    case (Inr b)
    then have res: "res = (b, snd r)"
      unfolding res_def r_def by (rule initialize_department_after_success)
    from ok Inr have b: "b" "map_of (department_vectorstores (snd r)) d \<noteq> None" by simp_all
    have "calls_since s (snd res) = new"
      using new(1) by (simp add: res calls_since_append)
    with res b Inr zero show ?thesis by simp
  next
    case (Inl err)
    note res = initialize_department_after_failure [OF Inl [unfolded r_def], folded res_def r_def]
    show ?thesis
    proof (cases "from_texts e [fallback_text d]")
      case fb: (Inl err')
      with res have res': "res = (False, record_call (FromTexts [fallback_text d]) (snd r))"
        by simp
      have "calls_since s (snd res) = new @ [FromTexts [fallback_text d]]"
        by (rule calls_since_append) (simp add: res' new(1))
      with res' Inl fb zero show ?thesis by simp
    next
      case fb: (Inr vs)
      with res have res': "res = (True, set_department_store d vs
                   (record_call (FromTexts [fallback_text d]) (snd r)))"
        by simp
      have "calls_since s (snd res) = new @ [FromTexts [fallback_text d]]"
        by (rule calls_since_append) (simp add: res' new(1))
      with res' Inl fb zero show ?thesis by simp
    qed
  qed
qed


lemma build_vectorstore_call:
  "fst (build_vectorstore e chunks) \<noteq> FromTexts [''empty fallback placeholder'']"
  by (simp add: build_vectorstore_def)

lemma initialize_try_summary:
  "\<exists>new. calls (snd (initialize_vectorstore_try e s chunks rebuild)) = calls s @ new
     \<and> FromTexts [''empty fallback placeholder''] \<notin> set new
     \<and> (\<forall>b. fst (initialize_vectorstore_try e s chunks rebuild) = Inr b
            \<longrightarrow> b \<and> vectorstore (snd (initialize_vectorstore_try e s chunks rebuild)) \<noteq> None)"
proof -
  let ?path = "faiss_index_path s"
  let ?attempt = "?path \<in> dirs s \<and> \<not> rebuild \<and> no_chunks chunks"
  let ?r = "initialize_vectorstore_try e s chunks rebuild"
  obtain ld s1 where tl: "try_load ?attempt ?path s = (ld, s1)" by fastforce
  note t = try_load_result [OF tl]
  have p1: "faiss_index_path s1 = ?path"
    using tl by (auto simp: try_load_def split: if_splits)
  show ?thesis
  proof (cases ld)
    case (Some vs)
    with tl have "?r = (Inr True, s1\<lparr>vectorstore := Some vs\<rparr>)"
      by (simp add: initialize_vectorstore_try_def)
    with t show ?thesis by auto
  next
    case None
    obtain c b where bd: "build_vectorstore e chunks = (c, b)" by fastforce
    have c: "c \<noteq> FromTexts [''empty fallback placeholder'']"
      using build_vectorstore_call [of e chunks] bd by simp
    show ?thesis
    proof (cases b)
      case (Inl err)
      with tl None bd have "?r = (Inl err, record_call c s1)"
        by (simp add: initialize_vectorstore_try_def)
      with t c show ?thesis by auto
    next
      case built: (Inr vs)
      obtain r2 s2 where mk: "makedirs e ?path ((record_call c s1)\<lparr>vectorstore := Some vs\<rparr>)
                                = (r2, s2)"
        by fastforce
      note m = makedirs_result [OF mk]
      show ?thesis
      proof (cases r2)
        case (Inl err)
        with tl None bd built mk p1 have "?r = (Inl err, s2)"
          by (simp add: initialize_vectorstore_try_def)
        with t m c show ?thesis by auto
      next
        case made: (Inr u)
        obtain r3 s3 where sv: "save_local e ?path vs s2 = (r3, s3)" by fastforce
        note v = save_local_result [OF sv]
        have p2: "faiss_index_path s2 = ?path" using m p1 by simp
        show ?thesis
        proof (cases r3)
          case (Inl err)
          with tl None bd built mk made sv p1 p2 have "?r = (Inl err, s3)"
            by (simp add: initialize_vectorstore_try_def)
          with t m v c show ?thesis by auto
        next
          case saved': (Inr u')
          with tl None bd built mk made sv p1 p2 have "?r = (Inr True, s3)"
            by (simp add: initialize_vectorstore_try_def)
          with t m v c show ?thesis by auto
        qed
      qed
    qed
  qed
qed

lemma initialize_after_success:
  assumes "fst (initialize_vectorstore_try e s chunks rebuild) = Inr b"
  shows "initialize_vectorstore e s chunks rebuild
           = (b, snd (initialize_vectorstore_try e s chunks rebuild))"
  using assms
  by (cases "initialize_vectorstore_try e s chunks rebuild")
     (simp add: initialize_vectorstore_def)

lemma initialize_after_failure:
  assumes "fst (initialize_vectorstore_try e s chunks rebuild) = Inl err"
  shows "initialize_vectorstore e s chunks rebuild
           = (case from_texts e [''empty fallback placeholder''] of
                Inr vs \<Rightarrow> (True, (record_call (FromTexts [''empty fallback placeholder''])
                      (snd (initialize_vectorstore_try e s chunks rebuild)))
                      \<lparr>vectorstore := Some vs\<rparr>)
              | Inl err' \<Rightarrow> (False, record_call (FromTexts [''empty fallback placeholder''])
                      (snd (initialize_vectorstore_try e s chunks rebuild))))"
  using assms
  by (cases "initialize_vectorstore_try e s chunks rebuild")
     (simp add: initialize_vectorstore_def Let_def split: sum.splits)

lemma initialize_policy:
  fixes e s chunks rebuild
  defines "r \<equiv> initialize_vectorstore_try e s chunks rebuild"
  defines "res \<equiv> initialize_vectorstore e s chunks rebuild"
  shows "(isl (fst r) \<longrightarrow>
            count_list (calls_since s (snd res)) (FromTexts [''empty fallback placeholder'']) = 1)
       \<and> (\<not> isl (fst r) \<longrightarrow>
            count_list (calls_since s (snd res)) (FromTexts [''empty fallback placeholder'']) = 0
            \<and> fst res)
       \<and> (\<not> fst res \<longleftrightarrow> isl (fst r) \<and> isl (from_texts e [''empty fallback placeholder'']))
       \<and> (fst res \<longrightarrow> vectorstore (snd res) \<noteq> None)"
proof -
  let ?fb = "FromTexts [''empty fallback placeholder'']"
  obtain new where new: "calls (snd r) = calls s @ new" "?fb \<notin> set new"
    and ok: "\<forall>b. fst r = Inr b \<longrightarrow> b \<and> vectorstore (snd r) \<noteq> None"
    using initialize_try_summary [of e s chunks rebuild] unfolding r_def by blast
  have zero: "count_list new ?fb = 0"
    using new(2) by (simp add: count_list_0_iff)
  show ?thesis
  proof (cases "fst r")
    case (Inr b)
    then have res: "res = (b, snd r)"
      unfolding res_def r_def by (rule initialize_after_success)
    from ok Inr have b: "b" "vectorstore (snd r) \<noteq> None" by simp_all
    have "calls_since s (snd res) = new"
      using new(1) by (simp add: res calls_since_append)
    with res b Inr zero show ?thesis by simp
  next
    case (Inl err)
    note res = initialize_after_failure [OF Inl [unfolded r_def], folded res_def r_def]
    show ?thesis
    proof (cases "from_texts e [''empty fallback placeholder'']")
      case fb: (Inl err')
      with res have res': "res = (False, record_call ?fb (snd r))"
        by simp
      have "calls_since s (snd res) = new @ [?fb]"
        by (rule calls_since_append) (simp add: res' new(1))
      with res' Inl fb zero show ?thesis by simp
    next
      case fb: (Inr vs)
      with res have res': "res = (True, (record_call ?fb (snd r))\<lparr>vectorstore := Some vs\<rparr>)"
        by simp
      have "calls_since s (snd res) = new @ [?fb]"
        by (rule calls_since_append) (simp add: res' new(1))
      with res' Inl fb zero show ?thesis by simp
    qed
  qed
qed

lemma unsaved_department_try:
  "isl (fst (initialize_department_vectorstore_try unsaved_env fresh_store ''a'' None False))"
  by (simp add: initialize_department_vectorstore_try_def unsaved_env_def example_env_def
        fresh_store_def makedirs_def record_call_def try_load_def no_chunks_def
        build_department_vectorstore_def from_texts_def from_documents_def save_local_def
        set_department_store_def Let_def)

lemma unsaved_try:
  "isl (fst (initialize_vectorstore_try unsaved_env fresh_store None False))"
  by (simp add: initialize_vectorstore_try_def unsaved_env_def example_env_def
        fresh_store_def makedirs_def record_call_def try_load_def no_chunks_def
        build_vectorstore_def from_texts_def from_documents_def save_local_def Let_def)

lemma unsaved_fallback: "\<not> isl (from_texts unsaved_env texts)"
  by (simp add: from_texts_def from_documents_def unsaved_env_def example_env_def)

lemma broken_department_try:
  "isl (fst (initialize_department_vectorstore_try broken_env fresh_store ''a'' None False))"
  by (simp add: initialize_department_vectorstore_try_def broken_env_def example_env_def
        fresh_store_def makedirs_def record_call_def try_load_def no_chunks_def
        build_department_vectorstore_def from_texts_def from_documents_def Let_def)

lemma broken_fallback: "isl (from_texts broken_env texts)"
  by (simp add: from_texts_def from_documents_def broken_env_def example_env_def)

subsection \<open>What a search returns from a store that holds documents\<close>

lemma page_content_annotate [simp]: "page_content (annotate dept v d) = page_content d"
  by (cases dept) (simp_all add: annotate_def set_score_def set_department_def)

lemma page_content_annotate_missing [simp]:
  "page_content (annotate_missing dept d) = page_content d"
  by (cases dept) (simp_all add: annotate_missing_def fill_score_def set_score_def set_department_def)

lemma update_positions_contents:
  assumes "\<And>x. page_content (f x) = page_content x"
  shows "map page_content (update_positions f ps ds) = map page_content ds"
  unfolding update_positions_def
proof (induction ps arbitrary: ds)
  case Nil
  then show ?case by simp
next
  case (Cons p ps)
  have "map page_content (ds[p := f (ds ! p)]) = map page_content ds"
  proof (cases "p < length ds")
    case True
    then show ?thesis by (simp add: map_update assms list_update_same_conv)
  next
    case False
    then have "length ds \<le> p" by simp
    then show ?thesis by (simp only: list_update_beyond)
  qed
  with Cons.IH [of "ds[p := f (ds ! p)]"] show ?case by simp
qed

lemma docstore_fallback_Some:
  assumes "docstore_fallback dept v k vs = Some (docs, vs')"
  shows "\<exists>ds. docstore vs = Docstore ds \<and> ds \<noteq> []
           \<and> docs = map (annotate dept v) (take k ds)
           \<and> vs' = vs\<lparr>docstore := Docstore (map (annotate dept v) (take k ds) @ drop k ds)\<rparr>"
  using assms
  by (auto simp: docstore_fallback_def direct_retrieval_def Let_def min_def
        split: docstore.splits if_splits)

lemma docstore_fallback_None:
  "docstore_fallback dept v k vs = None \<Longrightarrow> stored_documents vs = []"
  by (auto simp: docstore_fallback_def direct_retrieval_def Let_def stored_documents_def
        split: docstore.splits if_splits)

lemma docstore_fallback_contents:
  assumes "docstore_fallback dept v k vs = Some (docs, vs')"
  shows "map page_content (stored_documents vs') = map page_content (stored_documents vs)
       \<and> set docs \<subseteq> set (stored_documents vs')
       \<and> index vs' = index vs
       \<and> (0 < k \<longrightarrow> docs \<noteq> [])"
proof -
  from docstore_fallback_Some [OF assms] obtain ds where ds: "docstore vs = Docstore ds" "ds \<noteq> []"
    "docs = map (annotate dept v) (take k ds)"
    "vs' = vs\<lparr>docstore := Docstore (map (annotate dept v) (take k ds) @ drop k ds)\<rparr>"
    by blast
  have "map page_content (map (annotate dept v) (take k ds)) = map page_content (take k ds)"
    by simp
  then have "map page_content (map (annotate dept v) (take k ds) @ drop k ds)
               = map page_content (take k ds @ drop k ds)"
    by (simp only: map_append)
  then have "map page_content (map (annotate dept v) (take k ds) @ drop k ds) = map page_content ds"
    by (simp only: append_take_drop_id)
  with ds show ?thesis by (auto simp: stored_documents_def)
qed

lemma annotate_found_contents:
  assumes "annotate_found dept ps vs = (docs, vs')"
    and valid: "ps \<noteq> [] \<longrightarrow> (\<exists>ds. docstore vs = Docstore ds \<and> (\<forall>p\<in>set ps. p < length ds))"
  shows "map page_content (stored_documents vs') = map page_content (stored_documents vs)
       \<and> set docs \<subseteq> set (stored_documents vs')
       \<and> index vs' = index vs"
proof (cases "docstore vs")
  case (Docstore ds)
  let ?ds' = "update_positions (annotate_missing dept) ps ds"
  have docs: "docs = map (\<lambda>p. ?ds' ! p) ps" and vs': "vs' = vs\<lparr>docstore := Docstore ?ds'\<rparr>"
    using assms(1) Docstore by (auto simp: annotate_found_def Let_def)
  have bound: "\<forall>p\<in>set ps. p < length ds"
    using valid Docstore by (cases "ps = []") auto
  have "set docs \<subseteq> set ?ds'"
    using bound by (auto simp: docs)
  moreover have "map page_content ?ds' = map page_content ds"
    by (rule update_positions_contents) simp
  ultimately show ?thesis
    using Docstore by (simp add: vs' stored_documents_def)
next
  case DocstoreAbsent
  with assms show ?thesis by (auto simp: annotate_found_def)
next
  case DocstoreBroken
  with assms show ?thesis by (auto simp: annotate_found_def)
qed

text \<open>
  A search changes no content and returns stored documents only; when the store holds a
  document and the budget is positive, it does not return the empty list.
\<close>

lemma search_store_contents:
  assumes "search_store mmr dept vs query k = Inr (docs, vs')"
  shows "map page_content (stored_documents vs') = map page_content (stored_documents vs)
       \<and> set docs \<subseteq> set (stored_documents vs')
       \<and> index vs' = index vs
       \<and> (0 < k \<and> stored_documents vs \<noteq> [] \<longrightarrow> docs \<noteq> [])"
  using assms
proof (cases rule: search_store_cases)
  case body
  then show ?thesis
  proof (cases rule: search_body_cases)
    case direct
    from docstore_fallback_contents [OF direct(2)] show ?thesis by simp
  next
    case (found ps)
    have "ps \<noteq> [] \<longrightarrow> (\<exists>ds. docstore vs = Docstore ds \<and> (\<forall>p\<in>set ps. p < length ds))"
      using search_primary_resolved [OF found(1)] by blast
    from annotate_found_contents [OF found(2) this] found(3) show ?thesis by simp
  next
    case (enumerated ps vs0)
    have "ps \<noteq> [] \<longrightarrow> (\<exists>ds. docstore vs = Docstore ds \<and> (\<forall>p\<in>set ps. p < length ds))"
      using search_primary_resolved [OF enumerated(1)] by blast
    from annotate_found_contents [OF enumerated(2) this]
      docstore_fallback_contents [OF enumerated(3)]
    show ?thesis by simp
  next
    case (none_found ps)
    have "ps \<noteq> [] \<longrightarrow> (\<exists>ds. docstore vs = Docstore ds \<and> (\<forall>p\<in>set ps. p < length ds))"
      using search_primary_resolved [OF none_found(1)] by blast
    from annotate_found_contents [OF none_found(2) this]
    have c: "map page_content (stored_documents vs') = map page_content (stored_documents vs)"
      "index vs' = index vs"
      by simp_all
    have "stored_documents vs' = []" using none_found(4) by (rule docstore_fallback_None)
    with c have "stored_documents vs = []" by simp
    with c none_found(3) show ?thesis by simp
  qed
next
  case (emergency e)
  from docstore_fallback_contents [OF emergency(2)] show ?thesis by simp
next
  case (empty e)
  have "stored_documents vs = []" using empty(2) by (rule docstore_fallback_None)
  with empty show ?thesis by simp
qed

subsection \<open>Sorting by relevance\<close>

lemma sorted_sort_by_relevance:
  "sorted_wrt (\<lambda>a b. score_or 0 b \<le> score_or 0 a) (sort_by_relevance docs)"
proof -
  have "sorted (map (\<lambda>x. - score_or 0 x) (sort_key (\<lambda>x. - score_or 0 x) docs))"
    by (rule sorted_sort_key)
  then show ?thesis
    by (simp add: sorted_map sort_by_relevance_def)
qed

lemma sort_by_relevance_stable:
  "filter (\<lambda>doc. score_or 0 doc = v) (sort_by_relevance docs)
     = filter (\<lambda>doc. score_or 0 doc = v) docs"
proof -
  have "filter (\<lambda>y. - score_or 0 y = - v) (sort_key (\<lambda>x. - score_or 0 x) docs)
          = filter (\<lambda>y. - score_or 0 y = - v) docs"
    by (rule sort_key_stable)
  then show ?thesis by (simp add: sort_by_relevance_def)
qed

lemma top_k_sorted_stable:
  "sorted_wrt (\<lambda>a b. score_or 0 b \<le> score_or 0 a) (take k (sort_by_relevance docs))
   \<and> prefix (filter (\<lambda>doc. score_or 0 doc = v) (take k (sort_by_relevance docs)))
        (filter (\<lambda>doc. score_or 0 doc = v) docs)"
proof -
  have "prefix (filter (\<lambda>doc. score_or 0 doc = v) (take k (sort_by_relevance docs)))
          (filter (\<lambda>doc. score_or 0 doc = v) (sort_by_relevance docs))"
    by (intro filter_mono_prefix take_is_prefix)
  then show ?thesis
    using sorted_sort_by_relevance [of docs]
    by (simp add: sort_by_relevance_stable sorted_wrt_take)
qed

lemma similarity_search_example:
  assumes "vectorstore s = Some (example_faiss ds)" "ds \<noteq> []" "0 < effective_k s k"
  shows "result_docs (similarity_search s query k)
           = map (annotate_missing None) (take (effective_k s k) ds)"
  using assms
  by (simp add: similarity_search_def search_store_example_faiss result_docs_def)

lemma scan_two_partitions:
  "fst (scan_departments two_partitions ''q'' 5 [''a'', ''b''])
     = [chunk ''from a'' ''a'' (Some 0.9), chunk ''from b'' ''b'' (Some 0.9)]"
proof -
  let ?a = "chunk ''from a'' ''a'' (Some 0.9)" and ?b = "chunk ''from b'' ''b'' (Some 0.9)"
  have ka: "effective_k s (Some 5) = 5" for s by (simp add: effective_k_def)
  have a: "annotate_missing (Some ''a'') ?a = ?a" "set_department ''a'' ?a = ?a"
    by (simp_all add: annotate_missing_def fill_score_def set_department_def chunk_def)
  have b: "annotate_missing (Some ''b'') ?b = ?b" "set_department ''b'' ?b = ?b"
    by (simp_all add: annotate_missing_def fill_score_def set_department_def chunk_def)
  define s1 where "s1 = two_partitions\<lparr>department_vectorstores :=
      [(''a'', \<lparr>docstore = Docstore [?a], index = Some (example_index 1)\<rparr>),
       (''b'', example_faiss [?b])]\<rparr>"
  have sa: "search_department two_partitions ''q'' ''a'' (Some 5) = Inr ([?a], s1)"
    by (simp add: search_department_def two_partitions_def ka search_store_example_faiss a s1_def)
  have sb: "\<exists>s2. search_department s1 ''q'' ''b'' (Some 5) = Inr ([?b], s2)"
    by (simp add: search_department_def s1_def two_partitions_def ka search_store_example_faiss b)
  then obtain s2 where sb': "search_department s1 ''q'' ''b'' (Some 5) = Inr ([?b], s2)" ..
  have ma: "map_of (department_vectorstores two_partitions) ''a'' \<noteq> None"
    by (simp add: two_partitions_def)
  have mb: "map_of (department_vectorstores s1) ''b'' \<noteq> None"
    by (simp add: s1_def)
  show ?thesis
    using ma mb by (auto simp: sa sb' a b)
qed

subsection \<open>Characters beyond ASCII\<close>

lemma split_no_break_space:
  "split_sentences [CHR ''A'', CHR ''.'', CHR 0xA0, CHR ''B'', CHR ''.'', CHR 0x85, CHR ''C'', CHR ''.'']
     = [''A.'', ''B.'', ''C.'']"
  by code_simp

lemma lower_accented:
  "py_lower [CHR 0xC0, CHR 0xD7, CHR 0xDE, CHR ''Z''] = [CHR 0xE0, CHR 0xD7, CHR 0xFE, CHR ''z'']"
  by code_simp

lemma enhanced_context_window_nth:
  "i < length docs \<Longrightarrow>
     length (enhanced_context_window docs q w) = length docs
     \<and> enhanced_context_window docs q w ! i = window_doc q w (docs ! i)"
  by (auto simp: enhanced_context_window_def)

subsection \<open>The tier that annotates a result\<close>

lemma annotate_annotate [simp]: "annotate dept v (annotate dept w d) = annotate dept v d"
  by (cases dept) (simp_all add: annotate_def set_score_def set_department_def)

lemma annotate_annotate_missing [simp]:
  "annotate dept v (annotate_missing dept d) = annotate dept v d"
  by (cases dept)
     (simp_all add: annotate_def annotate_missing_def fill_score_def set_score_def
        set_department_def)

lemma annotate_missing_annotate [simp]:
  "annotate_missing dept (annotate dept v d) = annotate dept v d"
  by (cases dept)
     (simp_all add: annotate_def annotate_missing_def fill_score_def set_score_def
        set_department_def)

lemma annotated_after_derived:
  "derived dept d0 d1 \<Longrightarrow> annotated_by_tier dept d1 d2 \<Longrightarrow> annotated_by_tier dept d0 d2"
  by (auto simp: derived_def annotated_by_tier_def annotate_missing_idem)

lemma derived_trans:
  "derived dept d0 d1 \<Longrightarrow> derived dept d1 d2 \<Longrightarrow> derived dept d0 d2"
  using annotated_after_derived [of dept d0 d1 d2] by (auto simp: derived_def)

lemma set_department_annotated:
  "annotated_by_tier (Some department) d0 d \<Longrightarrow> set_department department d = d"
  by (auto simp: annotated_by_tier_def annotate_def annotate_missing_def set_department_def)

lemma tier_result_annotated:
  "tier_result dept stored docs \<Longrightarrow> d \<in> set docs
     \<Longrightarrow> \<exists>d0\<in>set stored. annotated_by_tier dept d0 d"
  by (auto simp: tier_result_def annotated_by_tier_def list_all_iff list_ex_iff)

lemma tier_result_Nil [simp]: "tier_result dept stored []"
  by (simp add: tier_result_def)

lemma annotate_is_tier:
  "v = 0.8 \<or> v = 0.7 \<or> v = 0.6 \<Longrightarrow> annotated_by_tier dept d0 (annotate dept v d0)"
  unfolding annotated_by_tier_def by blast

lemma tier_result_enumeration:
  assumes "v = 0.8 \<or> v = 0.7 \<or> v = 0.6"
    and "\<forall>d\<in>set docs. \<exists>d0\<in>set stored. d = annotate dept v d0"
  shows "tier_result dept stored docs"
proof -
  have "list_all (\<lambda>d. list_ex (\<lambda>d0. d = annotate dept v d0) stored) docs"
    using assms(2) by (simp only: list_all_iff list_ex_iff)
  with assms(1) show ?thesis unfolding tier_result_def by blast
qed

lemma derived_refl_all: "\<forall>d\<in>set ds. \<exists>d0\<in>set ds. derived dept d0 d"
  by (auto simp: derived_def)

lemma docstore_fallback_tier:
  assumes "docstore_fallback dept v k vs = Some (docs, vs')" "v = 0.8 \<or> v = 0.7 \<or> v = 0.6"
  shows "tier_result dept (stored_documents vs) docs
       \<and> (\<forall>d\<in>set (stored_documents vs'). \<exists>d0\<in>set (stored_documents vs). derived dept d0 d)"
proof -
  from docstore_fallback_Some [OF assms(1)] obtain ds where ds: "docstore vs = Docstore ds"
    "docs = map (annotate dept v) (take k ds)"
    "vs' = vs\<lparr>docstore := Docstore (map (annotate dept v) (take k ds) @ drop k ds)\<rparr>"
    by blast
  have a: "\<forall>d\<in>set docs. \<exists>d0\<in>set ds. d = annotate dept v d0"
    by (auto simp: ds(2) dest: in_set_takeD)
  then have "tier_result dept ds docs"
    using assms(2) by (intro tier_result_enumeration [of v]) simp_all
  moreover have "\<exists>d0\<in>set ds. derived dept d0 d"
    if "d \<in> set (map (annotate dept v) (take k ds) @ drop k ds)" for d
  proof (cases "d \<in> set docs")
    case True
    with a obtain d0 where "d0 \<in> set ds" "d = annotate dept v d0" by blast
    with annotate_is_tier [OF assms(2), of dept d0] show ?thesis
      unfolding derived_def by blast
  next
    case False
    with that have "d \<in> set (drop k ds)" by (simp add: ds(2))
    then have "d \<in> set ds" by (rule in_set_dropD)
    then show ?thesis by (auto simp: derived_def)
  qed
  ultimately show ?thesis using ds by (simp add: stored_documents_def)
qed

lemma annotate_found_tier:
  assumes "annotate_found dept ps vs = (docs, vs')"
    and valid: "ps \<noteq> [] \<longrightarrow> (\<exists>ds. docstore vs = Docstore ds \<and> (\<forall>p\<in>set ps. p < length ds))"
  shows "tier_result dept (stored_documents vs) docs
       \<and> (\<forall>d\<in>set (stored_documents vs'). \<exists>d0\<in>set (stored_documents vs). derived dept d0 d)
       \<and> (docs = [] \<longrightarrow> stored_documents vs' = stored_documents vs)"
proof (cases "docstore vs")
  case (Docstore ds)
  let ?ds' = "update_positions (annotate_missing dept) ps ds"
  have docs: "docs = map (\<lambda>p. ?ds' ! p) ps" and vs': "vs' = vs\<lparr>docstore := Docstore ?ds'\<rparr>"
    using assms(1) Docstore by (auto simp: annotate_found_def Let_def)
  have nth: "?ds' ! i = (if i \<in> set ps then annotate_missing dept (ds ! i) else ds ! i)"
    if "i < length ds" for i
    using that by (intro update_positions_nth) (simp_all add: annotate_missing_idem)
  have bound: "\<forall>p\<in>set ps. p < length ds"
    using valid Docstore by (cases "ps = []") auto
  have "\<forall>d\<in>set docs. \<exists>d0\<in>set ds. d = annotate_missing dept d0"
  proof
    fix d assume "d \<in> set docs"
    then obtain p where p: "p \<in> set ps" "d = ?ds' ! p" by (auto simp: docs)
    with bound have "p < length ds" by simp
    with p nth show "\<exists>d0\<in>set ds. d = annotate_missing dept d0" by auto
  qed
  then have t: "tier_result dept ds docs"
    by (auto simp: tier_result_def list_all_iff list_ex_iff)
  have der: "\<exists>d0\<in>set ds. derived dept d0 d" if "d \<in> set ?ds'" for d
  proof -
    from that obtain i where i: "i < length ds" "d = ?ds' ! i"
      by (auto simp: in_set_conv_nth)
    then have "d = annotate_missing dept (ds ! i) \<or> d = ds ! i"
      using nth [OF i(1)] by (cases "i \<in> set ps") simp_all
    then have "derived dept (ds ! i) d"
      by (auto simp: derived_def annotated_by_tier_def)
    with i(1) show ?thesis by auto
  qed
  have same: "?ds' = ds" if "docs = []"
  proof -
    from that have "ps = []" by (simp add: docs)
    then show ?thesis by (simp add: update_positions_def)
  qed
  from t der same show ?thesis
    using Docstore by (simp add: vs' stored_documents_def)
next
  case DocstoreAbsent
  with assms have "docs = []" "vs' = vs" by (auto simp: annotate_found_def)
  then show ?thesis using derived_refl_all [of "stored_documents vs" dept] by simp
next
  case DocstoreBroken
  with assms have "docs = []" "vs' = vs" by (auto simp: annotate_found_def)
  then show ?thesis using derived_refl_all [of "stored_documents vs" dept] by simp
qed

lemma search_store_tier:
  assumes "search_store mmr dept vs query k = Inr (docs, vs')"
  shows "tier_result dept (stored_documents vs) docs
       \<and> (\<forall>d\<in>set (stored_documents vs'). \<exists>d0\<in>set (stored_documents vs). derived dept d0 d)"
  using assms
proof (cases rule: search_store_cases)
  case body
  then show ?thesis
  proof (cases rule: search_body_cases)
    case direct
    from docstore_fallback_tier [OF direct(2)] show ?thesis by simp
  next
    case (found ps)
    have "ps \<noteq> [] \<longrightarrow> (\<exists>ds. docstore vs = Docstore ds \<and> (\<forall>p\<in>set ps. p < length ds))"
      using search_primary_resolved [OF found(1)] by blast
    from annotate_found_tier [OF found(2) this] show ?thesis by simp
  next
    case (enumerated ps vs0)
    have "ps \<noteq> [] \<longrightarrow> (\<exists>ds. docstore vs = Docstore ds \<and> (\<forall>p\<in>set ps. p < length ds))"
      using search_primary_resolved [OF enumerated(1)] by blast
    from annotate_found_tier [OF enumerated(2) this]
    have same: "stored_documents vs0 = stored_documents vs" by simp
    from docstore_fallback_tier [OF enumerated(3)] same show ?thesis by simp
  next
    case (none_found ps)
    have "ps \<noteq> [] \<longrightarrow> (\<exists>ds. docstore vs = Docstore ds \<and> (\<forall>p\<in>set ps. p < length ds))"
      using search_primary_resolved [OF none_found(1)] by blast
    from annotate_found_tier [OF none_found(2) this] none_found(3) show ?thesis by simp
  qed
next
  case (emergency e)
  from docstore_fallback_tier [OF emergency(2)] show ?thesis by simp
next
  case (empty e)
  then show ?thesis using derived_refl_all [of "stored_documents vs" dept] by simp
qed

lemma similarity_search_tier:
  assumes "similarity_search s query k = Inr (docs, s')"
  shows "tier_result None (global_documents s) docs"
  using similarity_search_Inr [OF assms]
proof (elim disjE exE conjE)
  fix vs vs'
  assume vs: "vectorstore s = Some vs"
    and st: "search_store (use_mmr s) None vs query (effective_k s k) = Inr (docs, vs')"
  from search_store_tier [OF st] vs show ?thesis by (simp add: global_documents_def)
qed simp

lemma search_department_tier:
  assumes "search_department s query department k = Inr (docs, s')"
  shows "tier_result (Some department) (partition_documents s department) docs
       \<and> (\<forall>d\<in>set (partition_documents s' department).
             \<exists>d0\<in>set (partition_documents s department). derived (Some department) d0 d)
       \<and> (\<forall>other. other \<noteq> department \<longrightarrow>
             map_of (department_vectorstores s') other = map_of (department_vectorstores s) other)
       \<and> (map_of (department_vectorstores s') department = None
            \<longleftrightarrow> map_of (department_vectorstores s) department = None)"
  using search_department_Inr [OF assms]
proof (elim disjE exE conjE)
  fix vs vs'
  assume vs: "map_of (department_vectorstores s) department = Some vs"
    and st: "search_store (use_mmr s) (Some department) vs query (effective_k s k)
               = Inr (docs, vs')"
    and s': "s' = s\<lparr>department_vectorstores :=
                        dict_set department vs' (department_vectorstores s)\<rparr>"
  from search_store_tier [OF st] vs show ?thesis
    by (simp add: partition_documents_def s' map_of_dict_set)
next
  assume "map_of (department_vectorstores s) department = None" "docs = []" "s' = s"
  then show ?thesis
    using derived_refl_all [of "partition_documents s department" "Some department"] by simp
qed

text \<open>
  During a scan every chunk stored in a partition is a chunk that the partition stored at
  the start, possibly annotated; and no partition appears or disappears.
\<close>

lemma scan_departments_tier:
  assumes inv: "\<And>dep. \<forall>d\<in>set (partition_documents s dep).
                    \<exists>d0\<in>set (partition_documents s0 dep). derived (Some dep) d0 d"
    and scan: "scan_departments s query k departments = (docs, s')"
  shows "\<forall>d\<in>set docs. \<exists>dep. \<exists>d0\<in>set (partition_documents s0 dep).
            annotated_by_tier (Some dep) d0 d"
  using inv scan
proof (induction departments arbitrary: s docs s')
  case Nil
  then show ?case by simp
next
  case (Cons department rest)
  show ?case
  proof (cases "map_of (department_vectorstores s) department")
    case None
    with Cons.prems(2) have "scan_departments s query k rest = (docs, s')" by simp
    from Cons.IH [OF Cons.prems(1) this] show ?thesis .
  next
    case (Some vs)
    obtain dept_results s1 where
      sd: "search_department s query department (Some k) = Inr (dept_results, s1)"
      using search_department_returns by blast
    obtain more s2 where more: "scan_departments s1 query k rest = (more, s2)"
      by fastforce
    note t = search_department_tier [OF sd]
    have here: "\<exists>d0\<in>set (partition_documents s0 department).
                  annotated_by_tier (Some department) d0 d"
      if "d \<in> set dept_results" for d
    proof -
      from t that obtain d1 where d1: "d1 \<in> set (partition_documents s department)"
        "annotated_by_tier (Some department) d1 d"
        using tier_result_annotated by blast
      from Cons.prems(1) [of department] d1(1) obtain d0 where
        d0: "d0 \<in> set (partition_documents s0 department)" "derived (Some department) d0 d1"
        by blast
      from annotated_after_derived [OF d0(2) d1(2)] d0(1) show ?thesis by blast
    qed
    have inv1: "\<forall>d\<in>set (partition_documents s1 dep).
                  \<exists>d0\<in>set (partition_documents s0 dep). derived (Some dep) d0 d" for dep
    proof (cases "dep = department")
      case True
      show ?thesis
      proof
        fix d assume "d \<in> set (partition_documents s1 dep)"
        with t True obtain d1 where d1: "d1 \<in> set (partition_documents s dep)"
          "derived (Some dep) d1 d"
          by blast
        from Cons.prems(1) [of dep] d1(1) obtain d0 where
          d0: "d0 \<in> set (partition_documents s0 dep)" "derived (Some dep) d0 d1"
          by blast
        from derived_trans [OF d0(2) d1(2)] d0(1)
        show "\<exists>d0\<in>set (partition_documents s0 dep). derived (Some dep) d0 d" by blast
      qed
    next
      case False
      with t have "partition_documents s1 dep = partition_documents s dep"
        by (simp add: partition_documents_def)
      with Cons.prems(1) [of dep] show ?thesis by simp
    qed
    from Cons.IH [OF inv1 more]
    have rest: "\<forall>d\<in>set more. \<exists>dep. \<exists>d0\<in>set (partition_documents s0 dep).
                  annotated_by_tier (Some dep) d0 d" .
    have tagged: "map (set_department department) dept_results = dept_results"
    proof (rule map_idI)
      fix d assume "d \<in> set dept_results"
      from here [OF this] show "set_department department d = d"
        using set_department_annotated by blast
    qed
    from Cons.prems(2) Some sd more
    have "docs = map (set_department department) dept_results @ more" by simp
    with tagged have docs: "set docs = set dept_results \<union> set more" by simp
    show ?thesis
    proof
      fix d assume "d \<in> set docs"
      with docs have "d \<in> set dept_results \<or> d \<in> set more" by simp
      then show "\<exists>dep. \<exists>d0\<in>set (partition_documents s0 dep).
                  annotated_by_tier (Some dep) d0 d"
        using here rest by blast
    qed
  qed
qed

lemma search_across_tier:
  assumes "search_across_departments s query departments k = Inr (docs, s')"
  shows "(\<not> fuses s departments \<longrightarrow> tier_result None (global_documents s) docs)
       \<and> (fuses s departments \<longrightarrow>
            (\<forall>d\<in>set docs. \<exists>dep. \<exists>d0\<in>set (partition_documents s dep).
               annotated_by_tier (Some dep) d0 d))"
proof (cases "fuses s departments")
  case False
  with assms have "similarity_search s query k = Inr (docs, s')"
    by (simp add: search_across_delegates)
  with False show ?thesis by (simp add: similarity_search_tier)
next
  case True
  obtain merged s1 where
    sc: "scan_departments s query (effective_k s k) (scanned_departments s departments)
           = (merged, s1)"
    by fastforce
  from search_across_fused [OF True sc] assms
  have eq: "docs = take (effective_k s k) (sort_by_relevance merged)" by simp
  have sub: "set docs \<subseteq> set merged"
    unfolding eq using set_take_subset [of "effective_k s k" "sort_by_relevance merged"] by simp
  have "\<forall>d\<in>set merged. \<exists>dep. \<exists>d0\<in>set (partition_documents s dep).
            annotated_by_tier (Some dep) d0 d"
    using _ sc by (rule scan_departments_tier) (rule derived_refl_all)
  with sub True show ?thesis by blast
qed

lemma annotate_score:
  "md_relevance_score (metadata (annotate dept v d0)) = Some v
   \<and> page_content (annotate dept v d0) = page_content d0"
  by (cases dept) (simp_all add: annotate_def set_score_def set_department_def)

lemma annotate_missing_score:
  "md_relevance_score (metadata (annotate_missing dept d0))
     = (case md_relevance_score (metadata d0) of None \<Rightarrow> Some 0.85 | Some v \<Rightarrow> Some v)
   \<and> page_content (annotate_missing dept d0) = page_content d0"
  by (cases dept)
     (auto simp: annotate_missing_def fill_score_def set_score_def set_department_def
        split: option.splits)

subsection \<open>Placeholder partitions\<close>

lemma annotate_department:
  "md_department (metadata (annotate (Some department) v d0)) = Some department"
  "md_department (metadata (annotate_missing (Some department) d0)) = Some department"
  by (simp_all add: annotate_def annotate_missing_def set_department_def)

lemma search_store_department:
  assumes "search_store mmr (Some department) vs query k = Inr (docs, vs')"
  shows "\<forall>doc\<in>set docs. md_department (metadata doc) = Some department"
proof
  fix doc assume "doc \<in> set docs"
  with search_store_tier [OF assms] obtain d0 where
    "annotated_by_tier (Some department) d0 doc"
    using tier_result_annotated by blast
  then show "md_department (metadata doc) = Some department"
    by (auto simp: annotated_by_tier_def annotate_department)
qed

lemma search_placeholder_partition:
  assumes "placeholder_partition d s"
  shows "\<exists>docs s'. search_department s query d k = Inr (docs, s')
           \<and> placeholder_partition d s'
           \<and> top_k_retrieval s' = top_k_retrieval s
           \<and> (0 < effective_k s k \<longrightarrow> docs \<noteq> [])
           \<and> tier_result (Some d) (partition_documents s d) docs
           \<and> (\<forall>doc\<in>set docs. (page_content doc = placeholder_text d
                                 \<or> page_content doc = fallback_text d)
                               \<and> score_within tier_defaults doc
                               \<and> md_department (metadata doc) = Some d)"
proof -
  from assms obtain vs where vs: "map_of (department_vectorstores s) d = Some vs"
    and ph: "map page_content (stored_documents vs) = [placeholder_text d]
             \<or> map page_content (stored_documents vs) = [fallback_text d]"
    and sc: "store_scores_within tier_defaults vs"
    by (auto simp: placeholder_partition_def split: option.splits)
  obtain docs s' where r: "search_department s query d k = Inr (docs, s')"
    using search_department_returns by blast
  from search_department_Inr [OF r] vs obtain vs' where
    st: "search_store (use_mmr s) (Some d) vs query (effective_k s k) = Inr (docs, vs')"
    and s': "s' = s\<lparr>department_vectorstores := dict_set d vs' (department_vectorstores s)\<rparr>"
    by auto
  note c = search_store_contents [OF st]
  from search_store_scores [OF st sc subset_refl]
  have sc': "list_all (score_within tier_defaults) docs" "store_scores_within tier_defaults vs'"
    by simp_all
  note dp = search_store_department [OF st]
  have tr: "tier_result (Some d) (partition_documents s d) docs"
    using search_department_tier [OF r] by simp
  have ne: "stored_documents vs \<noteq> []" using ph by auto
  have ph': "map page_content (stored_documents vs') = [placeholder_text d]
             \<or> map page_content (stored_documents vs') = [fallback_text d]"
    using ph c by simp
  have "placeholder_partition d s'"
    using ph' sc'(2) by (simp add: placeholder_partition_def s' map_of_dict_set)
  moreover have "(page_content doc = placeholder_text d \<or> page_content doc = fallback_text d)
                 \<and> score_within tier_defaults doc \<and> md_department (metadata doc) = Some d"
    if "doc \<in> set docs" for doc
  proof -
    from c have "set docs \<subseteq> set (stored_documents vs')" by simp
    with that have "doc \<in> set (stored_documents vs')" by blast
    then have "page_content doc \<in> set (map page_content (stored_documents vs'))"
      by simp
    with ph' have "page_content doc = placeholder_text d \<or> page_content doc = fallback_text d"
      by auto
    moreover from sc'(1) that have "score_within tier_defaults doc"
      by (simp add: list_all_iff)
    moreover from dp that have "md_department (metadata doc) = Some d" by simp
    ultimately show ?thesis by simp
  qed
  ultimately show ?thesis
    using r c ne tr by (intro exI [of _ docs] exI [of _ s']) (simp add: s')
qed

lemma fresh_sentinel_scores:
  "docstore vs = Docstore [\<lparr>page_content = t, metadata = empty_meta\<rparr>]
     \<Longrightarrow> store_scores_within S vs"
  by (simp add: store_scores_within_def stored_documents_def score_absent_or_within_def
        empty_meta_def)

lemma initialize_department_placeholder:
  assumes nc: "no_chunks chunks"
    and noload: "rebuild \<or> saved s (path_join (faiss_index_path s) d) = None"
    and ok: "fst (initialize_department_vectorstore e s d chunks rebuild)"
  shows "placeholder_partition d (snd (initialize_department_vectorstore e s d chunks rebuild))"
proof -
  let ?r = "initialize_department_vectorstore_try e s d chunks rebuild"
  have success: "placeholder_partition d (snd ?r)" if "fst ?r = Inr True"
  proof (cases rule: initialize_department_try_cases [of e s d chunks rebuild])
    case (loaded vs)
    with noload show ?thesis by simp
  next
    case (built c vs ld)
    note ds = build_department_placeholder [OF nc built(3)]
    from ds fresh_sentinel_scores [OF ds] built(6) show ?thesis
      by (simp add: placeholder_partition_def stored_documents_def)
  qed (use that in simp_all)
  show ?thesis
  proof (cases "fst ?r")
    case (Inr b)
    from initialize_department_after_success [OF Inr] ok have "b" by simp
    with Inr success initialize_department_after_success [OF Inr] show ?thesis by simp
  next
    case (Inl err)
    note res = initialize_department_after_failure [OF Inl]
    show ?thesis
    proof (cases "from_texts e [fallback_text d]")
      case fb: (Inl err')
      with res ok show ?thesis by simp
    next
      case fb: (Inr vs)
      from from_texts_Inr [OF fb]
      have ds: "docstore vs = Docstore [\<lparr>page_content = fallback_text d, metadata = empty_meta\<rparr>]"
        by simp
      then have "map page_content (stored_documents vs) = [fallback_text d]"
        by (simp add: stored_documents_def)
      with res fb fresh_sentinel_scores [OF ds] show ?thesis
        by (simp add: placeholder_partition_def)
    qed
  qed
qed

lemma initialize_department_example:
  "initialize_department_vectorstore example_env fresh_store ''a'' (Some []) False
     = (True, fresh_store
          \<lparr> department_vectorstores :=
              [(''a'', example_faiss
                         [\<lparr>page_content = placeholder_text ''a'', metadata = empty_meta\<rparr>])],
            dirs := {''faiss_index/a'', ''faiss_index''},
            saved := [''faiss_index/a'' \<mapsto> example_faiss
                         [\<lparr>page_content = placeholder_text ''a'', metadata = empty_meta\<rparr>]],
            calls := [MakeDirs ''faiss_index/a'', LoadLocal ''faiss_index/a'',
                      FromTexts [placeholder_text ''a''], SaveLocal ''faiss_index/a''] \<rparr>)"
  by (simp add: initialize_department_vectorstore_def initialize_department_vectorstore_try_def
        example_env_def fresh_store_def makedirs_def record_call_def try_load_def no_chunks_def
        build_department_vectorstore_def from_texts_def from_documents_def save_local_def
        set_department_store_def path_join_def example_faiss_def Let_def)

lemma search_placeholder_example:
  "result_docs (search_department
      (snd (initialize_department_vectorstore example_env fresh_store ''a'' (Some []) False))
      ''anything'' ''a'' (Some 5))
   = [\<lparr> page_content = ''Empty placeholder for a department'',
        metadata = empty_meta\<lparr>md_relevance_score := Some 0.85, md_department := Some ''a''\<rparr> \<rparr>]"
proof -
  let ?sentinel = "\<lparr>page_content = placeholder_text ''a'', metadata = empty_meta\<rparr>"
  have "result_docs (search_department
      (snd (initialize_department_vectorstore example_env fresh_store ''a'' (Some []) False))
      ''anything'' ''a'' (Some 5))
    = map (annotate_missing (Some ''a'')) (take 5 [?sentinel])"
    by (simp add: initialize_department_example search_department_def effective_k_def
          search_store_example_faiss result_docs_def)
  then show ?thesis
    by (simp add: annotate_missing_def fill_score_def set_score_def set_department_def
          empty_meta_def placeholder_text_def)
qed

section \<open>The relevance summary\<close>

text \<open>
  \<^bold>\<open>C1\<close> (as amended). For the empty list the summary is \<open>(0.0, False)\<close>. For every
  non-empty list of retrieved documents and every threshold, \<open>max_score\<close> is the maximum
  relevance score over the documents (0.7 standing for a missing score) and
  \<open>has_relevant_context\<close> is \<open>True\<close>, whatever the threshold.
\<close>

theorem relevance_summary_ignores_threshold:
  "(docs = [] \<longrightarrow> fst (evaluate_context_relevance query docs threshold) = (0, False))
   \<and> (docs \<noteq> [] \<longrightarrow>
        fst (evaluate_context_relevance query docs threshold)
          = (Max (set (map (score_or 0.7) docs)), True))"
proof (cases "docs = []")
  case True
  then show ?thesis by (simp add: evaluate_context_relevance_def)
next
  case ne: False
  let ?docs' = "map (fill_score 0.7) docs"
  have eq: "map (score_or 0.7) ?docs' = map (score_or 0.7) docs"
    by (simp add: score_or_fill)
  have "py_max (score_or 0.7 (hd ?docs')) (map (score_or 0.7) (tl ?docs'))
          = py_max (hd (map (score_or 0.7) ?docs')) (tl (map (score_or 0.7) ?docs'))"
    using ne by (simp add: hd_map map_tl)
  also have "\<dots> = Max (set (map (score_or 0.7) docs))"
    using ne by (simp only: eq) (rule py_max_hd_tl, simp)
  finally show ?thesis
    using ne by (cases docs) (simp_all add: evaluate_context_relevance_def Let_def)
qed

theorem relevance_summary_ignores_threshold_witness:
  "[\<lparr>page_content = ''x'', metadata = empty_meta\<lparr>md_relevance_score := Some 0.9\<rparr>\<rparr>,
    \<lparr>page_content = ''y'', metadata = empty_meta\<rparr>] \<noteq> []
   \<and> fst (evaluate_context_relevance ''q''
            [\<lparr>page_content = ''x'', metadata = empty_meta\<lparr>md_relevance_score := Some 0.9\<rparr>\<rparr>,
             \<lparr>page_content = ''y'', metadata = empty_meta\<rparr>] 0.95) = (0.9, True)
   \<and> fst (evaluate_context_relevance ''q'' [] 0.3) = (0, False)"
  using relevance_summary_ignores_threshold
          [of "[\<lparr>page_content = ''x'', metadata = empty_meta\<lparr>md_relevance_score := Some 0.9\<rparr>\<rparr>,
                \<lparr>page_content = ''y'', metadata = empty_meta\<rparr>]" "''q''" "0.95"]
        relevance_summary_ignores_threshold [of "[]" "''q''" "0.3"]
  by (simp add: score_or_def empty_meta_def)

theorem relevance_flag_below_threshold_counterexample:
  "fst (fst (evaluate_context_relevance ''q''
       [\<lparr>page_content = ''x'', metadata = empty_meta\<lparr>md_relevance_score := Some 0.2\<rparr>\<rparr>] 0.3)) = 0.2
   \<and> snd (fst (evaluate_context_relevance ''q''
       [\<lparr>page_content = ''x'', metadata = empty_meta\<lparr>md_relevance_score := Some 0.2\<rparr>\<rparr>] 0.3))
     \<noteq> ((0.3::real) \<le> 0.2)"
  by (simp add: evaluate_context_relevance_def py_max_def score_or_def fill_score_def
        empty_meta_def)

section \<open>The context window\<close>

text \<open>
  \<^bold>\<open>C6\<close>. The refiner returns one document for each document given. For a document of
  the list without the error flag: when it has more than \<open>2w\<close> sentences and the prefix
  rule does not apply, the document returned in its place holds the sentences
  \<open>[max(0, m - w), min(len, m + w + 1))\<close>, joined by spaces, where \<open>m\<close> is the first index
  at which the term-overlap score is maximal, with the original metadata and the window
  bounds, \<open>central_sentence = m\<close>, the score of that sentence and the window type added.
  For the content \<open>S1. S2. S3. S4. S5. S6. S7. S8.\<close> (eight sentences), \<open>w = 2\<close> and a
  query whose terms overlap only the sentence \<open>S5.\<close>, the content returned is
  \<open>S3. S4. S5. S6. S7.\<close> and \<open>central_sentence\<close> is 4.
\<close>

theorem context_window_centred:
  assumes "i < length docs" and "md_error (metadata (docs ! i)) \<noteq> Some True"
  shows "length (enhanced_context_window docs q w) = length docs
       \<and> (2 * w < length (split_sentences (page_content (docs ! i)))
          \<and> \<not> (Max (set (sentence_scores q (docs ! i))) < 0.1
                \<and> 10 < length (split_sentences (page_content (docs ! i))))
          \<longrightarrow> (\<exists>m. m < length (split_sentences (page_content (docs ! i)))
                 \<and> sentence_scores q (docs ! i) ! m = Max (set (sentence_scores q (docs ! i)))
                 \<and> (\<forall>j<m. sentence_scores q (docs ! i) ! j < sentence_scores q (docs ! i) ! m)
                 \<and> enhanced_context_window docs q w ! i =
                     \<lparr> page_content =
                         join_space (slice (split_sentences (page_content (docs ! i)))
                           (nat (max 0 (int m - int w)))
                           (min (length (split_sentences (page_content (docs ! i)))) (m + w + 1))),
                       metadata = (metadata (docs ! i))
                         \<lparr> md_window_start := Some (nat (max 0 (int m - int w))),
                           md_window_end :=
                             Some (min (length (split_sentences (page_content (docs ! i))))
                                       (m + w + 1)),
                           md_central_sentence := Some m,
                           md_sentence_relevance := Some (sentence_scores q (docs ! i) ! m),
                           md_window_type := Some ''context'' \<rparr> \<rparr>))
       \<and> (page_content (docs ! i) = ''S1. S2. S3. S4. S5. S6. S7. S8.''
          \<and> overlaps q ''S5.''
          \<and> (\<forall>s \<in> set [''S1.'', ''S2.'', ''S3.'', ''S4.'', ''S6.'', ''S7.'', ''S8.''].
                \<not> overlaps q s)
          \<longrightarrow> length (split_sentences (page_content (docs ! i))) = 8
              \<and> length (enhanced_context_window docs q 2) = length docs
              \<and> page_content (enhanced_context_window docs q 2 ! i) = ''S3. S4. S5. S6. S7.''
              \<and> md_central_sentence (metadata (enhanced_context_window docs q 2 ! i)) = Some 4)"
proof (intro conjI impI)
  show "length (enhanced_context_window docs q w) = length docs"
    using enhanced_context_window_nth [OF assms(1)] by simp
next
  assume "2 * w < length (split_sentences (page_content (docs ! i)))
          \<and> \<not> (Max (set (sentence_scores q (docs ! i))) < 0.1
                \<and> 10 < length (split_sentences (page_content (docs ! i))))"
  then show "\<exists>m. m < length (split_sentences (page_content (docs ! i)))
                 \<and> sentence_scores q (docs ! i) ! m = Max (set (sentence_scores q (docs ! i)))
                 \<and> (\<forall>j<m. sentence_scores q (docs ! i) ! j < sentence_scores q (docs ! i) ! m)
                 \<and> enhanced_context_window docs q w ! i =
                     \<lparr> page_content =
                         join_space (slice (split_sentences (page_content (docs ! i)))
                           (nat (max 0 (int m - int w)))
                           (min (length (split_sentences (page_content (docs ! i)))) (m + w + 1))),
                       metadata = (metadata (docs ! i))
                         \<lparr> md_window_start := Some (nat (max 0 (int m - int w))),
                           md_window_end :=
                             Some (min (length (split_sentences (page_content (docs ! i))))
                                       (m + w + 1)),
                           md_central_sentence := Some m,
                           md_sentence_relevance := Some (sentence_scores q (docs ! i) ! m),
                           md_window_type := Some ''context'' \<rparr> \<rparr>"
    using window_doc_context [OF assms(2), of w q]
      enhanced_context_window_nth [OF assms(1), of q w]
    by simp
next
  assume ex: "page_content (docs ! i) = ''S1. S2. S3. S4. S5. S6. S7. S8.''
          \<and> overlaps q ''S5.''
          \<and> (\<forall>s \<in> set [''S1.'', ''S2.'', ''S3.'', ''S4.'', ''S6.'', ''S7.'', ''S8.''].
                \<not> overlaps q s)"
  then have doc: "docs ! i = \<lparr>page_content = ''S1. S2. S3. S4. S5. S6. S7. S8.'',
                               metadata = metadata (docs ! i)\<rparr>"
    by (cases "docs ! i") simp
  from ex have w: "window_doc q 2 \<lparr>page_content = ''S1. S2. S3. S4. S5. S6. S7. S8.'',
                                   metadata = metadata (docs ! i)\<rparr> =
          \<lparr> page_content = ''S3. S4. S5. S6. S7.'',
            metadata = (metadata (docs ! i)) \<lparr> md_window_start := Some 2, md_window_end := Some 7,
                            md_central_sentence := Some 4,
                            md_sentence_relevance := Some (sentence_score (query_terms q) ''S5.''),
                            md_window_type := Some ''context'' \<rparr> \<rparr>"
    by (intro window_doc_example assms) simp_all
  have nth: "enhanced_context_window docs q 2 ! i = window_doc q 2 (docs ! i)"
    using enhanced_context_window_nth [OF assms(1)] by simp
  show "length (split_sentences (page_content (docs ! i))) = 8"
    using ex by (simp add: split_eight)
  show "length (enhanced_context_window docs q 2) = length docs"
    using enhanced_context_window_nth [OF assms(1)] by simp
  show "page_content (enhanced_context_window docs q 2 ! i) = ''S3. S4. S5. S6. S7.''"
    unfolding nth by (subst doc) (simp add: w)
  show "md_central_sentence (metadata (enhanced_context_window docs q 2 ! i)) = Some 4"
    unfolding nth by (subst doc) (simp add: w)
qed

theorem context_window_centred_witness:
  "(0::nat) < length [\<lparr>page_content = ''S1. S2. S3. S4. S5. S6. S7. S8.'', metadata = empty_meta\<rparr>]
   \<and> md_error (metadata ([\<lparr>page_content = ''S1. S2. S3. S4. S5. S6. S7. S8.'',
                              metadata = empty_meta\<rparr>] ! 0)) \<noteq> Some True
   \<and> 2 * 2 < length (split_sentences ''S1. S2. S3. S4. S5. S6. S7. S8.'')
   \<and> overlaps ''S5.'' ''S5.''
   \<and> \<not> overlaps ''S5.'' ''S1.'' \<and> \<not> overlaps ''S5.'' ''S2.'' \<and> \<not> overlaps ''S5.'' ''S3.''
   \<and> \<not> overlaps ''S5.'' ''S4.'' \<and> \<not> overlaps ''S5.'' ''S6.'' \<and> \<not> overlaps ''S5.'' ''S7.''
   \<and> \<not> overlaps ''S5.'' ''S8.''
   \<and> length (enhanced_context_window
        [\<lparr>page_content = ''S1. S2. S3. S4. S5. S6. S7. S8.'', metadata = empty_meta\<rparr>]
        ''S5.'' 2) = 1
   \<and> page_content (enhanced_context_window
        [\<lparr>page_content = ''S1. S2. S3. S4. S5. S6. S7. S8.'', metadata = empty_meta\<rparr>]
        ''S5.'' 2 ! 0) = ''S3. S4. S5. S6. S7.''
   \<and> md_central_sentence (metadata (enhanced_context_window
        [\<lparr>page_content = ''S1. S2. S3. S4. S5. S6. S7. S8.'', metadata = empty_meta\<rparr>]
        ''S5.'' 2 ! 0)) = Some 4"
proof -
  let ?d = "\<lparr>page_content = ''S1. S2. S3. S4. S5. S6. S7. S8.'', metadata = empty_meta\<rparr>"
  have h1: "(0::nat) < length [?d]" by simp
  have h2: "md_error (metadata ([?d] ! 0)) \<noteq> Some True"
    by (simp add: empty_meta_def)
  from context_window_centred [OF h1 h2, where q = "''S5.''" and w = 2]
    overlaps_S5 overlaps_others h2
  show ?thesis by (simp add: split_eight)
qed

text \<open>
  \<^bold>\<open>C7\<close> (as amended). For every query and window half-width \<open>w\<close>, the refiner passes
  a document through unmodified, content and metadata, whenever the document splits into at
  most \<open>2w\<close> sentences or carries the error flag. The empty content is one sentence (the
  split of the empty text is the list holding the empty text), so a document with empty
  content is passed through unmodified for every \<open>w \<ge> 1\<close>.
\<close>

theorem context_window_pass_through:
  assumes "i < length docs"
    and "md_error (metadata (docs ! i)) = Some True
         \<or> length (split_sentences (page_content (docs ! i))) \<le> 2 * w
         \<or> (page_content (docs ! i) = '''' \<and> 1 \<le> w)"
  shows "length (enhanced_context_window docs q w) = length docs
         \<and> enhanced_context_window docs q w ! i = docs ! i"
proof -
  have "window_doc q w (docs ! i) = docs ! i"
    using assms(2) by (intro window_doc_pass) (auto simp: split_empty)
  then show ?thesis
    using assms(1) by (auto simp: enhanced_context_window_def)
qed

theorem context_window_pass_through_witness:
  "(0::nat) < length [\<lparr>page_content = '''', metadata = empty_meta\<rparr>]
   \<and> page_content ([\<lparr>page_content = '''', metadata = empty_meta\<rparr>] ! 0) = '''' \<and> (1::nat) \<le> 3
   \<and> enhanced_context_window [\<lparr>page_content = '''', metadata = empty_meta\<rparr>] ''anything'' 3
       = [\<lparr>page_content = '''', metadata = empty_meta\<rparr>]"
proof -
  let ?d = "\<lparr>page_content = '''', metadata = empty_meta\<rparr>"
  let ?r = "enhanced_context_window [?d] ''anything'' 3"
  have h1: "(0::nat) < length [?d]" by simp
  have h2: "md_error (metadata ([?d] ! 0)) = Some True
            \<or> length (split_sentences (page_content ([?d] ! 0))) \<le> 2 * 3
            \<or> (page_content ([?d] ! 0) = '''' \<and> (1::nat) \<le> 3)"
    by simp
  from context_window_pass_through [OF h1 h2, of "''anything''"]
  have "length ?r = 1" and "?r ! 0 = ?d" by simp_all
  then have "?r = [?d]" by (cases ?r) auto
  then show ?thesis by simp
qed

theorem empty_content_zero_width_counterexample:
  "enhanced_context_window [\<lparr>page_content = '''', metadata = empty_meta\<rparr>] ''q'' 0
     \<noteq> [\<lparr>page_content = '''', metadata = empty_meta\<rparr>]"
  by (simp add: enhanced_context_window_def window_doc_def split_empty Let_def py_max_def
        empty_meta_def)

section \<open>The retrieval engine\<close>

text \<open>
  \<^bold>\<open>C3\<close> (as amended). Every chunk returned by \<open>similarity_search\<close>,
  \<open>search_department\<close> or \<open>search_across_departments\<close> carries a relevance score. It is a
  stored chunk annotated by the tier that returned it: the search tier fills 0.85 into a
  chunk without a score and leaves a score already there as it is; the enumeration tiers
  write their own default (0.8, 0.7 or 0.6) into every chunk they return, over a score
  already there. All the chunks of one result of \<open>similarity_search\<close> or
  \<open>search_department\<close> come from one tier; in a fused result each chunk comes from a tier
  of its partition. So the score lies in [0,1] provided every score that a stored chunk
  already carries lies in [0,1], and then the stored scores lie in [0,1] afterwards too.
\<close>

theorem retrieval_scores_in_range:
  "(similarity_search s query k = Inr (docs, s')
      \<longrightarrow> list_all (score_within UNIV) docs
          \<and> tier_result None (global_documents s) docs
          \<and> (stored_scores_within {0..1} s
               \<longrightarrow> list_all (score_within {0..1}) docs \<and> stored_scores_within {0..1} s'))
   \<and> (search_department s query department k = Inr (docs, s')
      \<longrightarrow> list_all (score_within UNIV) docs
          \<and> tier_result (Some department) (partition_documents s department) docs
          \<and> (stored_scores_within {0..1} s
               \<longrightarrow> list_all (score_within {0..1}) docs \<and> stored_scores_within {0..1} s'))
   \<and> (search_across_departments s query departments k = Inr (docs, s')
      \<longrightarrow> list_all (score_within UNIV) docs
          \<and> (\<not> fuses s departments \<longrightarrow> tier_result None (global_documents s) docs)
          \<and> (fuses s departments \<longrightarrow>
                (\<forall>d\<in>set docs. \<exists>dep. \<exists>d0\<in>set (partition_documents s dep).
                   annotated_by_tier (Some dep) d0 d))
          \<and> (stored_scores_within {0..1} s
               \<longrightarrow> list_all (score_within {0..1}) docs \<and> stored_scores_within {0..1} s'))
   \<and> md_relevance_score (metadata (annotate_missing dept d0))
       = (case md_relevance_score (metadata d0) of None \<Rightarrow> Some 0.85 | Some v \<Rightarrow> Some v)
   \<and> md_relevance_score (metadata (annotate dept v d0)) = Some v"
proof -
  have sub: "tier_defaults \<subseteq> {0..1}" by (simp add: tier_defaults_def)
  have top: "tier_defaults \<subseteq> UNIV" by simp
  note u = stored_scores_within_UNIV [of s]
  have a: "list_all (score_within UNIV) docs \<and> tier_result None (global_documents s) docs
          \<and> (stored_scores_within {0..1} s
               \<longrightarrow> list_all (score_within {0..1}) docs \<and> stored_scores_within {0..1} s')"
    if r: "similarity_search s query k = Inr (docs, s')"
    using similarity_search_scores [OF r u top] similarity_search_tier [OF r]
      similarity_search_scores [OF r _ sub]
    by blast
  have b: "list_all (score_within UNIV) docs
          \<and> tier_result (Some department) (partition_documents s department) docs
          \<and> (stored_scores_within {0..1} s
               \<longrightarrow> list_all (score_within {0..1}) docs \<and> stored_scores_within {0..1} s')"
    if r: "search_department s query department k = Inr (docs, s')"
    using search_department_scores [OF r u top] search_department_tier [OF r]
      search_department_scores [OF r _ sub]
    by blast
  have c: "list_all (score_within UNIV) docs
          \<and> (\<not> fuses s departments \<longrightarrow> tier_result None (global_documents s) docs)
          \<and> (fuses s departments \<longrightarrow>
                (\<forall>d\<in>set docs. \<exists>dep. \<exists>d0\<in>set (partition_documents s dep).
                   annotated_by_tier (Some dep) d0 d))
          \<and> (stored_scores_within {0..1} s
               \<longrightarrow> list_all (score_within {0..1}) docs \<and> stored_scores_within {0..1} s')"
    if r: "search_across_departments s query departments k = Inr (docs, s')"
    using search_across_scores [OF r u top] search_across_tier [OF r]
      search_across_scores [OF r _ sub]
    by blast
  from a b c annotate_score [of dept v d0] annotate_missing_score [of dept d0]
  show ?thesis by blast
qed

theorem retrieval_scores_in_range_witness:
  "stored_scores_within {0..1} populated_store
   \<and> length (result_docs (similarity_search populated_store ''q'' (Some 2))) = 2
   \<and> list_all (score_within {0..1}) (result_docs (similarity_search populated_store ''q'' (Some 2)))
   \<and> tier_result None (global_documents populated_store)
        (result_docs (similarity_search populated_store ''q'' (Some 2)))"
proof -
  have h: "stored_scores_within {0..1} populated_store"
    using populated_scores by (rule stored_scores_within_mono [rotated]) simp
  obtain docs s' where r: "similarity_search populated_store ''q'' (Some 2) = Inr (docs, s')"
    using similarity_search_returns by blast
  have d: "docs = result_docs (similarity_search populated_store ''q'' (Some 2))"
    by (simp add: r result_docs_def)
  then have len: "length docs = 2"
    by (simp add: similarity_search_populated effective_k_def six_chunks_def)
  note T = retrieval_scores_in_range
             [where s = populated_store and query = "''q''" and k = "Some 2" and docs = docs
                and s' = s', THEN conjunct1, THEN mp, OF r]
  from T have t: "tier_result None (global_documents populated_store) docs"
    by (elim conjE)
  from T h have "list_all (score_within {0..1}) docs"
    by (elim conjE impE) assumption+
  with t h len show ?thesis
    unfolding d by (intro conjI)
qed

theorem stored_score_out_of_range_counterexample:
  "\<not> list_all (score_within {0..1}) (result_docs (similarity_search scored_store ''q'' (Some 2)))"
  by (simp add: similarity_search_scored_store annotate_missing_def fill_score_def
        chunk_def score_within_def)

text \<open>
  \<^bold>\<open>C4\<close> (as amended). Provided the index of the global store answers at most as many
  hits as the budget it is given, \<open>similarity_search\<close> never raises, for every query,
  every budget and every state of the index, and returns a list whose length is at most
  the effective budget: \<open>k\<close> when \<open>k \<ge> 1\<close>, the configured \<open>top_k_retrieval\<close> when
  \<open>k\<close> is 0 or \<open>None\<close>. When the index is absent it returns the empty list.
\<close>

theorem similarity_search_within_budget:
  assumes "case vectorstore s of None \<Rightarrow> True | Some vs \<Rightarrow> index_bounded vs"
  shows "\<exists>docs s'. similarity_search s query k = Inr (docs, s')
           \<and> length docs \<le> effective_k s k
           \<and> (\<forall>n. k = Some n \<and> 0 < n \<longrightarrow> length docs \<le> n)
           \<and> (vectorstore s = None \<longrightarrow> docs = [] \<and> s' = s)"
proof -
  obtain docs s' where r: "similarity_search s query k = Inr (docs, s')"
    using similarity_search_returns by blast
  have len: "length docs \<le> effective_k s k"
    using similarity_search_Inr [OF r]
  proof (elim disjE exE conjE)
    fix vs vs'
    assume vs: "vectorstore s = Some vs"
      and st: "search_store (use_mmr s) None vs query (effective_k s k) = Inr (docs, vs')"
    have "index_bounded vs" using assms vs by simp
    then show ?thesis using st by (rule search_store_length)
  qed simp
  have "length docs \<le> n" if "k = Some n" "0 < n" for n
    using len that by (simp add: effective_k_def)
  moreover have "docs = [] \<and> s' = s" if "vectorstore s = None"
    using r that by (simp add: similarity_search_def)
  ultimately show ?thesis using r len by (intro exI [of _ docs] exI [of _ s']) simp
qed

theorem similarity_search_within_budget_witness:
  "index_bounded (example_faiss six_chunks)
   \<and> length (result_docs (similarity_search populated_store ''q'' (Some 2))) \<le> 2
   \<and> vectorstore fresh_store = None
   \<and> result_docs (similarity_search fresh_store ''q'' (Some 2)) = []"
proof -
  have h1: "case vectorstore populated_store of None \<Rightarrow> True | Some vs \<Rightarrow> index_bounded vs"
    by (simp add: populated_store_def index_bounded_example)
  have h2: "case vectorstore fresh_store of None \<Rightarrow> True | Some vs \<Rightarrow> index_bounded vs"
    by (simp add: fresh_store_def)
  from similarity_search_within_budget [OF h1, of "''q''" "Some 2"]
  have a: "length (result_docs (similarity_search populated_store ''q'' (Some 2))) \<le> 2"
    by (auto simp: result_docs_def)
  from similarity_search_within_budget [OF h2, of "''q''" "Some 2"]
  have b: "result_docs (similarity_search fresh_store ''q'' (Some 2)) = []"
    by (auto simp: result_docs_def fresh_store_def)
  from a b show ?thesis by (simp add: index_bounded_example fresh_store_def)
qed

theorem zero_budget_counterexample:
  "\<not> length (result_docs (similarity_search scored_store ''q'' (Some 0))) \<le> 0"
proof -
  have "similarity_search scored_store ''q'' (Some 0) = similarity_search scored_store ''q'' (Some 5)"
    by (simp add: similarity_search_def effective_k_def scored_store_def fresh_store_def)
  then show ?thesis
    by (simp add: similarity_search_scored_store)
qed

text \<open>
  \<^bold>\<open>C9\<close>. For every query, \<open>similarity_search\<close> and \<open>search_department\<close> called with the
  budget 0 or \<open>None\<close> behave as with the budget \<open>top_k_retrieval\<close>. On a store of six
  chunks configured with \<open>top_k_retrieval = 5\<close>, both calls return five documents, not
  the empty list.
\<close>

theorem zero_budget_is_default:
  "similarity_search s query (Some 0) = similarity_search s query (Some (top_k_retrieval s))
   \<and> similarity_search s query None = similarity_search s query (Some (top_k_retrieval s))
   \<and> search_department s query department (Some 0)
       = search_department s query department (Some (top_k_retrieval s))
   \<and> search_department s query department None
       = search_department s query department (Some (top_k_retrieval s))
   \<and> top_k_retrieval populated_store = 5
   \<and> length (result_docs (similarity_search populated_store ''q'' (Some 0))) = 5
   \<and> length (result_docs (similarity_search populated_store ''q'' None)) = 5
   \<and> length (result_docs (search_department populated_store ''q'' ''general'' (Some 0))) = 5
   \<and> length (result_docs (search_department populated_store ''q'' ''general'' None)) = 5"
proof -
  have k: "effective_k s (Some 0) = effective_k s (Some (top_k_retrieval s))"
    "effective_k s None = effective_k s (Some (top_k_retrieval s))"
    by (simp_all add: effective_k_def)
  have top: "top_k_retrieval populated_store = 5"
    by (simp add: populated_store_def fresh_store_def)
  have e: "effective_k populated_store (Some 0) = 5" "effective_k populated_store None = 5"
    by (simp_all add: effective_k_def top)
  have six: "length six_chunks = 6" by (simp add: six_chunks_def)
  have general:
    "similarity_search s query (Some 0) = similarity_search s query (Some (top_k_retrieval s))"
    "similarity_search s query None = similarity_search s query (Some (top_k_retrieval s))"
    "search_department s query department (Some 0)
       = search_department s query department (Some (top_k_retrieval s))"
    "search_department s query department None
       = search_department s query department (Some (top_k_retrieval s))"
    by (simp_all only: similarity_search_def search_department_def k)
  have example:
    "length (result_docs (similarity_search populated_store ''q'' (Some 0))) = 5"
    "length (result_docs (similarity_search populated_store ''q'' None)) = 5"
    "length (result_docs (search_department populated_store ''q'' ''general'' (Some 0))) = 5"
    "length (result_docs (search_department populated_store ''q'' ''general'' None)) = 5"
    by (simp_all add: similarity_search_populated search_department_populated e six)
  from general example top show ?thesis by blast
qed

text \<open>
  \<^bold>\<open>C2\<close> (as amended). When the initialisation of a partition with no chunks (an empty
  list, or none) reports success without having loaded a persisted index, the partition
  holds a placeholder index: one sentinel entry, without a score. Every subsequent search
  against a partition that holds a placeholder index returns without raising and leaves
  the placeholder in place. Every document it returns is the sentinel entry annotated by
  one tier: it has the sentinel text, one of the default scores 0.85, 0.8, 0.7, 0.6 and
  the department. With a positive effective budget the result is not empty: the sentinel
  is returned.
\<close>

theorem placeholder_sentinel_is_returned:
  "(no_chunks chunks
      \<and> (rebuild \<or> saved s (path_join (faiss_index_path s) d) = None)
      \<and> fst (initialize_department_vectorstore e s d chunks rebuild)
      \<longrightarrow> placeholder_partition d (snd (initialize_department_vectorstore e s d chunks rebuild)))
   \<and> (placeholder_partition d s1
      \<longrightarrow> (\<exists>docs s2. search_department s1 query d k = Inr (docs, s2)
            \<and> placeholder_partition d s2
            \<and> top_k_retrieval s2 = top_k_retrieval s1
            \<and> (0 < effective_k s1 k \<longrightarrow> docs \<noteq> [])
            \<and> tier_result (Some d) (partition_documents s1 d) docs
            \<and> (\<forall>doc\<in>set docs. (page_content doc = placeholder_text d
                                  \<or> page_content doc = fallback_text d)
                                \<and> score_within tier_defaults doc
                                \<and> md_department (metadata doc) = Some d)))"
  using initialize_department_placeholder [of chunks rebuild s d e]
    search_placeholder_partition [of d s1 query k]
  by blast

theorem placeholder_sentinel_is_returned_witness:
  "no_chunks (Some [])
   \<and> saved fresh_store (path_join (faiss_index_path fresh_store) ''a'') = None
   \<and> fst (initialize_department_vectorstore example_env fresh_store ''a'' (Some []) False)
   \<and> placeholder_partition ''a''
        (snd (initialize_department_vectorstore example_env fresh_store ''a'' (Some []) False))
   \<and> 0 < effective_k
            (snd (initialize_department_vectorstore example_env fresh_store ''a'' (Some []) False))
            (Some 5)
   \<and> result_docs (search_department
        (snd (initialize_department_vectorstore example_env fresh_store ''a'' (Some []) False))
        ''anything'' ''a'' (Some 5)) \<noteq> []"
proof -
  let ?s1 = "snd (initialize_department_vectorstore example_env fresh_store ''a'' (Some []) False)"
  have h1: "no_chunks (Some [])" by (simp add: no_chunks_def)
  have h2: "saved fresh_store (path_join (faiss_index_path fresh_store) ''a'') = None"
    by (simp add: fresh_store_def)
  have h3: "fst (initialize_department_vectorstore example_env fresh_store ''a'' (Some []) False)"
    by (simp add: initialize_department_example)
  have k: "0 < effective_k ?s1 (Some 5)" by (simp add: effective_k_def)
  note T = placeholder_sentinel_is_returned
         [of "Some []" False fresh_store "''a''" example_env ?s1 "''anything''" "Some 5"]
  from T [THEN conjunct1] h1 h2 h3 have p: "placeholder_partition ''a'' ?s1"
    by (elim impE) (intro conjI disjI2, assumption+)
  from T [THEN conjunct2, THEN mp, OF p] obtain docs s2 where
    r: "search_department ?s1 ''anything'' ''a'' (Some 5) = Inr (docs, s2)"
    and ne: "0 < effective_k ?s1 (Some 5) \<longrightarrow> docs \<noteq> []"
    by (elim exE conjE) (rule that)
  from ne k have "docs \<noteq> []" by (elim impE)
  then have "result_docs (search_department ?s1 ''anything'' ''a'' (Some 5)) \<noteq> []"
    by (simp add: r result_docs_def)
  with h1 h2 h3 p k show ?thesis by (intro conjI)
qed

theorem placeholder_leaks_counterexample:
  "result_docs (search_department
      (snd (initialize_department_vectorstore example_env fresh_store ''a'' (Some []) False))
      ''anything'' ''a'' (Some 5))
   = [\<lparr> page_content = ''Empty placeholder for a department'',
        metadata = empty_meta\<lparr>md_relevance_score := Some 0.85, md_department := Some ''a''\<rparr> \<rparr>]
   \<and> result_docs (search_department
      (snd (initialize_department_vectorstore example_env fresh_store ''a'' (Some []) False))
      ''anything'' ''a'' (Some 5)) \<noteq> []"
  by (simp add: search_placeholder_example)

section \<open>Cross-partition fusion\<close>

text \<open>
  \<^bold>\<open>C5\<close> (as amended). When some partition is named or known, \<open>search_across_departments\<close>
  never raises and returns a list of length at most the effective budget (\<open>k\<close> when
  \<open>k \<ge> 1\<close>, \<open>top_k_retrieval\<close> when \<open>k\<close> is 0 or \<open>None\<close>), in which every chunk carries a
  score and which is sorted non-increasing by score. Chunks of equal score keep the order
  of the merged list, which holds the results of the partitions in the order scanned, each
  in its own rank order: for every score, the chunks of that score in the result are the
  first chunks of that score in the merged list.
\<close>

theorem fusion_sorted_stable:
  assumes "fuses s departments"
  shows "\<exists>docs s'. search_across_departments s query departments k = Inr (docs, s')
           \<and> length docs \<le> effective_k s k
           \<and> list_all (score_within UNIV) docs
           \<and> sorted_wrt (\<lambda>a b. score_or 0 b \<le> score_or 0 a) docs
           \<and> (\<forall>v. prefix (filter (\<lambda>doc. score_or 0 doc = v) docs)
                  (filter (\<lambda>doc. score_or 0 doc = v)
                     (fst (scan_departments s query (effective_k s k)
                             (scanned_departments s departments)))))"
proof -
  obtain merged s' where
    sc: "scan_departments s query (effective_k s k) (scanned_departments s departments)
           = (merged, s')"
    by fastforce
  let ?docs = "take (effective_k s k) (sort_by_relevance merged)"
  have r: "search_across_departments s query departments k = Inr (?docs, s')"
    using assms sc by (rule search_across_fused)
  have "list_all (score_within UNIV) merged"
    using sc by (rule scan_departments_scored)
  moreover have "set ?docs \<subseteq> set merged"
    using set_take_subset [of "effective_k s k" "sort_by_relevance merged"] by simp
  ultimately have scored: "list_all (score_within UNIV) ?docs"
    by (auto simp: list_all_iff)
  have "length ?docs \<le> effective_k s k" by simp
  with r scored top_k_sorted_stable [of "effective_k s k" merged] sc
  show ?thesis by (intro exI [of _ ?docs] exI [of _ s']) simp
qed

theorem fusion_sorted_stable_witness:
  "fuses two_partitions (Some [''a'', ''b''])
   \<and> result_docs (search_across_departments two_partitions ''q'' (Some [''a'', ''b'']) (Some 5))
       = [chunk ''from a'' ''a'' (Some 0.9), chunk ''from b'' ''b'' (Some 0.9)]"
proof -
  let ?a = "chunk ''from a'' ''a'' (Some 0.9)" and ?b = "chunk ''from b'' ''b'' (Some 0.9)"
  have h: "fuses two_partitions (Some [''a'', ''b''])" by (simp add: fuses_def)
  have k: "effective_k two_partitions (Some 5) = 5" by (simp add: effective_k_def)
  have sd: "scanned_departments two_partitions (Some [''a'', ''b'']) = [''a'', ''b'']"
    by (simp add: scanned_departments_def)
  have sc: "score_or 0 ?a = 0.9" "score_or 0 ?b = 0.9"
    by (simp_all add: score_or_def chunk_def)
  from fusion_sorted_stable [OF h, of "''q''" "Some 5"] obtain docs s' where
    r: "search_across_departments two_partitions ''q'' (Some [''a'', ''b'']) (Some 5)
          = Inr (docs, s')"
    by (elim exE conjE) (rule that)
  obtain merged s1 where
    m: "scan_departments two_partitions ''q'' 5 [''a'', ''b''] = (merged, s1)" by fastforce
  with scan_two_partitions have merged: "merged = [?a, ?b]" by simp
  from search_across_fused [OF h, of "''q''" "Some 5" merged s1] m r
  have "docs = take 5 (sort_by_relevance [?a, ?b])"
    by (simp add: k sd merged)
  then have "docs = [?a, ?b]"
    by (simp add: sort_by_relevance_def sc)
  with h r show ?thesis by (simp add: result_docs_def)
qed

theorem fusion_budget_and_order_counterexample:
  "\<not> length (result_docs
        (search_across_departments two_partitions ''q'' (Some [''a'', ''b'']) (Some 0))) \<le> 0
   \<and> \<not> sorted_wrt (\<lambda>a b. score_or 0 b \<le> score_or 0 a)
        (result_docs (search_across_departments rescored_store ''q'' None (Some 2)))"
proof -
  let ?a = "chunk ''from a'' ''a'' (Some 0.9)" and ?b = "chunk ''from b'' ''b'' (Some 0.9)"
  have h: "fuses two_partitions (Some [''a'', ''b''])" by (simp add: fuses_def)
  have k: "effective_k two_partitions (Some 0) = 5"
    by (simp add: effective_k_def two_partitions_def fresh_store_def)
  have sd: "scanned_departments two_partitions (Some [''a'', ''b'']) = [''a'', ''b'']"
    by (simp add: scanned_departments_def)
  have sc: "score_or 0 ?a = 0.9" "score_or 0 ?b = 0.9"
    by (simp_all add: score_or_def chunk_def)
  obtain merged s1 where
    m: "scan_departments two_partitions ''q'' 5 [''a'', ''b''] = (merged, s1)" by fastforce
  with scan_two_partitions have merged: "merged = [?a, ?b]" by simp
  from search_across_fused [OF h, of "''q''" "Some 0" merged s1] m
  have "result_docs (search_across_departments two_partitions ''q'' (Some [''a'', ''b'']) (Some 0))
          = take 5 (sort_by_relevance [?a, ?b])"
    by (simp add: k sd merged result_docs_def)
  then have one: "length (result_docs
        (search_across_departments two_partitions ''q'' (Some [''a'', ''b'']) (Some 0))) = 2"
    by (simp add: sort_by_relevance_def)
  have nf: "\<not> fuses rescored_store None"
    by (simp add: fuses_def rescored_store_def fresh_store_def)
  have "result_docs (search_across_departments rescored_store ''q'' None (Some 2))
          = result_docs (similarity_search rescored_store ''q'' (Some 2))"
    using nf by (simp add: search_across_delegates)
  also have "\<dots> = map (annotate_missing None)
                     (take 2 [chunk ''first'' ''general'' (Some 0.6),
                              chunk ''second'' ''general'' None])"
    by (subst similarity_search_example
          [of _ "[chunk ''first'' ''general'' (Some 0.6), chunk ''second'' ''general'' None]"])
       (simp_all add: rescored_store_def effective_k_def)
  finally have two: "\<not> sorted_wrt (\<lambda>a b. score_or 0 b \<le> score_or 0 a)
        (result_docs (search_across_departments rescored_store ''q'' None (Some 2)))"
    by (simp add: annotate_missing_def fill_score_def set_score_def chunk_def score_or_def)
  from one two show ?thesis by simp
qed

section \<open>The index manager\<close>

text \<open>
  \<^bold>\<open>C8\<close>. For every initialisation of the global index and of a partition index: when
  the \<open>try\<close> block that loads or builds and persists the index raises, exactly one fallback
  build of a placeholder index is attempted, and none when it does not raise; the
  initialisation reports failure exactly when both the \<open>try\<close> block and the fallback build
  raised; and when it reports success an index is in place, for the global store or for
  the partition.
\<close>

theorem initialisation_failure_policy:
  "(isl (fst (initialize_vectorstore_try e s chunks rebuild)) \<longrightarrow>
      count_list (calls_since s (snd (initialize_vectorstore e s chunks rebuild)))
        (FromTexts [''empty fallback placeholder'']) = 1)
   \<and> (\<not> isl (fst (initialize_vectorstore_try e s chunks rebuild)) \<longrightarrow>
        count_list (calls_since s (snd (initialize_vectorstore e s chunks rebuild)))
          (FromTexts [''empty fallback placeholder'']) = 0
        \<and> fst (initialize_vectorstore e s chunks rebuild))
   \<and> (\<not> fst (initialize_vectorstore e s chunks rebuild) \<longleftrightarrow>
        isl (fst (initialize_vectorstore_try e s chunks rebuild))
        \<and> isl (from_texts e [''empty fallback placeholder'']))
   \<and> (fst (initialize_vectorstore e s chunks rebuild) \<longrightarrow>
        vectorstore (snd (initialize_vectorstore e s chunks rebuild)) \<noteq> None)
   \<and> (isl (fst (initialize_department_vectorstore_try e s d chunks rebuild)) \<longrightarrow>
        count_list (calls_since s (snd (initialize_department_vectorstore e s d chunks rebuild)))
          (FromTexts [fallback_text d]) = 1)
   \<and> (\<not> isl (fst (initialize_department_vectorstore_try e s d chunks rebuild)) \<longrightarrow>
        count_list (calls_since s (snd (initialize_department_vectorstore e s d chunks rebuild)))
          (FromTexts [fallback_text d]) = 0
        \<and> fst (initialize_department_vectorstore e s d chunks rebuild))
   \<and> (\<not> fst (initialize_department_vectorstore e s d chunks rebuild) \<longleftrightarrow>
        isl (fst (initialize_department_vectorstore_try e s d chunks rebuild))
        \<and> isl (from_texts e [fallback_text d]))
   \<and> (fst (initialize_department_vectorstore e s d chunks rebuild) \<longrightarrow>
        map_of (department_vectorstores
          (snd (initialize_department_vectorstore e s d chunks rebuild))) d \<noteq> None)"
  using initialize_policy [of e s chunks rebuild]
    initialize_department_policy [of e s d chunks rebuild]
  by blast

theorem initialisation_failure_policy_witness:
  "isl (fst (initialize_vectorstore_try unsaved_env fresh_store None False))
   \<and> fst (initialize_vectorstore unsaved_env fresh_store None False)
   \<and> count_list (calls_since fresh_store
          (snd (initialize_vectorstore unsaved_env fresh_store None False)))
        (FromTexts [''empty fallback placeholder'']) = 1
   \<and> vectorstore (snd (initialize_vectorstore unsaved_env fresh_store None False)) \<noteq> None
   \<and> isl (fst (initialize_department_vectorstore_try unsaved_env fresh_store ''a'' None False))
   \<and> fst (initialize_department_vectorstore unsaved_env fresh_store ''a'' None False)
   \<and> count_list (calls_since fresh_store
          (snd (initialize_department_vectorstore unsaved_env fresh_store ''a'' None False)))
        (FromTexts [fallback_text ''a'']) = 1
   \<and> map_of (department_vectorstores
          (snd (initialize_department_vectorstore unsaved_env fresh_store ''a'' None False))) ''a''
       \<noteq> None
   \<and> isl (fst (initialize_department_vectorstore_try broken_env fresh_store ''a'' None False))
   \<and> \<not> fst (initialize_department_vectorstore broken_env fresh_store ''a'' None False)"
  using initialisation_failure_policy [of unsaved_env fresh_store None False "''a''"]
    initialisation_failure_policy [of broken_env fresh_store None False "''a''"]
    unsaved_try unsaved_department_try unsaved_fallback broken_department_try broken_fallback
  by simp

text \<open>
  \<^bold>\<open>C10\<close>. \<open>add_documents\<close> and \<open>add_documents_to_department\<close> called with an empty
  chunk list or with \<open>None\<close> return \<open>False\<close> and leave the whole state as it was: the
  in-memory indices, the persisted indices and directories, and the list of library calls
  (nothing is initialised, inserted or saved).
\<close>

theorem add_nothing_changes_nothing:
  "add_documents e s None = (False, s)
   \<and> add_documents e s (Some []) = (False, s)
   \<and> add_documents_to_department e s department None = (False, s)
   \<and> add_documents_to_department e s department (Some []) = (False, s)"
  by (simp add: add_documents_def add_documents_to_department_def no_chunks_def)

end
